theory Spec2Isabelle
  imports Main "HOL-Library.AList"
begin

section \<open>The job agents of the process-mode orchestrator (job\_agent.py)\<close>

text \<open>
  The three agents of \<^verbatim>\<open>maro/cli/process/agent/job_agent.py\<close> poll a Redis store and the
  operating system. The model below is sequential: one agent runs one poll cycle on a
  world that nobody else touches meanwhile. Every exception that the Python can raise on
  the modelled data is a value, together with the world at the moment it is raised
  (nothing in the file catches an exception, so a raise ends the cycle and the agent).
\<close>

subsection \<open>Data\<close>

text \<open>
  What ends a cycle before its last statement: the Python exceptions that the modelled
  calls raise, and \<open>Killed\<close>, which is not an exception: the process that runs the
  code has been terminated by a kill that it issued itself.
\<close>

datatype error =
  TypeError | KeyError | ValueError | JSONDecodeError | ProcessLookupError | OverflowError
  | Killed

text \<open>
  The result of a statement: the state it leaves when it completes, or the exception and
  the state at the raise.
\<close>

datatype 's outcome = Done 's | Raised error 's

text \<open>
  A value of a Redis hash that the code hands to \<^verbatim>\<open>json.loads\<close>: a text that does
  not parse, or a text that parses to a document.
\<close>

datatype 'a payload = Garbled | Doc 'a

text \<open>The job details: \<^verbatim>\<open>{"name": ..., "components": {type: {"num": n, "command": c}}}\<close>.\<close>

record component =
  num :: int
  command :: string

record job_spec =
  name :: string
  components :: "(string \<times> component) list"

text \<open>
  The value stored per running job is the JSON of a Python dict from a key to a list of
  PIDs; a dict keeps its keys in insertion order.
\<close>

type_synonym pid_dict = "(string \<times> int list) list"

text \<open>A value of the setting hash, as \<^verbatim>\<open>int(...)\<close> sees it: digits, or another text.\<close>

datatype setting_value = Digits int | Text string

text \<open>What a Python loop variable can hold where the code passes it to the \<^verbatim>\<open>os\<close> module.\<close>

datatype pyval = PyInt int | PyStr string

text \<open>
  What the agents do to the operating system, in order: a launch with
  \<^verbatim>\<open>subprocess.Popen\<close> (job name, component type, instance index, command; the log
  file is \<^verbatim>\<open><job>/<type>_<index>.log\<close>), a SIGTERM sent to a process group with
  \<^verbatim>\<open>os.killpg\<close>, and a call of \<^verbatim>\<open>close_by_pid\<close> (PIDs, recursive flag).
\<close>

datatype event =
    Popen string string nat string
  | Killpg int
  | Close_by_pid "int list" bool

text \<open>
  The content of Redis: the keys of \<^verbatim>\<open>ProcessRedisName\<close>, two lists (pending and
  kill tickets) and three hashes (job details, running jobs, setting). A hash is an
  association list with one entry per field, in insertion order.
\<close>

type_synonym redis_state = "string list \<times> string list \<times> (string \<times> job_spec payload) list
    \<times> (string \<times> pid_dict payload) list \<times> (string \<times> setting_value) list"

text \<open>
  The world: the content of Redis and the operating system. \<open>os_pids k\<close> is the pair
  of PIDs that the system gives to the \<open>k\<close>-th launch (the shell and its child),
  \<open>pgid_of\<close> the process group of a PID, \<open>descendants\<close> the PIDs below a PID in
  the process tree (of the processes that exist and of those that the launches create);
  they are inputs of the model, so every theorem holds for every choice of them.
  \<open>tracker_pid\<close> is the PID of the process that runs the JobTrackingAgent.
  \<open>history\<close> has the content of Redis after each write command, in the order of the
  writes, so that the states between two writes of an agent can be spoken of.
\<close>

record world =
  pending_job_tickets :: "string list"
  killed_job_tickets :: "string list"
  job_details :: "(string \<times> job_spec payload) list"
  running_job :: "(string \<times> pid_dict payload) list"
  setting :: "(string \<times> setting_value) list"
  alive :: "int set"
  os_pids :: "nat \<Rightarrow> int \<times> int"
  pgid_of :: "int \<Rightarrow> int"
  launched :: nat
  trace :: "event list"
  descendants :: "int \<Rightarrow> int set"
  tracker_pid :: int
  history :: "redis_state list"

subsection \<open>Redis commands\<close>

text \<open>The Redis part of the world.\<close>

definition redis :: "world \<Rightarrow> redis_state" where
  "redis w = (pending_job_tickets w, killed_job_tickets w, job_details w, running_job w, setting w)"

text \<open>A write command leaves its result in the history.\<close>

definition logged :: "world \<Rightarrow> world" where
  "logged w = w\<lparr>history := history w @ [redis w]\<rparr>"

text \<open>\<^verbatim>\<open>hset(RUNNING_JOB, field, value)\<close> and \<^verbatim>\<open>hdel(RUNNING_JOB, field)\<close>.\<close>

definition hset_running_job :: "string \<Rightarrow> pid_dict payload \<Rightarrow> world \<Rightarrow> world" where
  "hset_running_job field v w = logged (w\<lparr>running_job := AList.update field v (running_job w)\<rparr>)"

definition hdel_running_job :: "string \<Rightarrow> world \<Rightarrow> world" where
  "hdel_running_job field w = logged (w\<lparr>running_job := AList.delete field (running_job w)\<rparr>)"

text \<open>\<^verbatim>\<open>hset(SETTING, field, value)\<close>.\<close>

definition hset_setting :: "string \<Rightarrow> setting_value \<Rightarrow> world \<Rightarrow> world" where
  "hset_setting field v w = logged (w\<lparr>setting := AList.update field v (setting w)\<rparr>)"

text \<open>
  \<^verbatim>\<open>lrem(PENDING_JOB_TICKETS, 0, job)\<close> and \<^verbatim>\<open>lrem(KILLED_JOB_TICKETS, 0, job)\<close>:
  count 0 removes every occurrence.
\<close>

definition lrem_pending :: "string \<Rightarrow> world \<Rightarrow> world" where
  "lrem_pending job w =
     logged (w\<lparr>pending_job_tickets := removeAll job (pending_job_tickets w)\<rparr>)"

definition lrem_killed :: "string \<Rightarrow> world \<Rightarrow> world" where
  "lrem_killed job w =
     logged (w\<lparr>killed_job_tickets := removeAll job (killed_job_tickets w)\<rparr>)"

subsection \<open>Library calls\<close>

text \<open>
  \<^verbatim>\<open>json.loads(redis.hget(key, field))\<close>: \<^verbatim>\<open>hget\<close> gives \<^verbatim>\<open>None\<close> for a
  missing field, and \<^verbatim>\<open>json.loads(None)\<close> raises TypeError.
\<close>

definition json_loads :: "'a payload option \<Rightarrow> error + 'a" where
  "json_loads v = (case v of
      None \<Rightarrow> Inl TypeError
    | Some Garbled \<Rightarrow> Inl JSONDecodeError
    | Some (Doc d) \<Rightarrow> Inr d)"

text \<open>\<^verbatim>\<open>int(redis.hget(key, field))\<close>.\<close>

definition py_int :: "setting_value option \<Rightarrow> error + int" where
  "py_int v = (case v of
      None \<Rightarrow> Inl TypeError
    | Some (Text t) \<Rightarrow> Inl ValueError
    | Some (Digits n) \<Rightarrow> Inr n)"

text \<open>\<^verbatim>\<open>d[key]\<close> on a dict.\<close>

definition dict_get :: "pid_dict \<Rightarrow> string \<Rightarrow> error + int list" where
  "dict_get d k = (case map_of d k of None \<Rightarrow> Inl KeyError | Some v \<Rightarrow> Inr v)"

text \<open>\<^verbatim>\<open>d[key].append(x)\<close> on a \<^verbatim>\<open>defaultdict(list)\<close>: a missing key is created.\<close>

definition dd_append :: "string \<Rightarrow> int \<Rightarrow> pid_dict \<Rightarrow> pid_dict" where
  "dd_append k x d = (case map_of d k of
      None \<Rightarrow> d @ [(k, [x])]
    | Some xs \<Rightarrow> AList.update k (xs @ [x]) d)"

text \<open>\<^verbatim>\<open>for x in d\<close> on a dict runs over its keys.\<close>

definition dict_iter :: "pid_dict \<Rightarrow> pyval list" where
  "dict_iter d = map (\<lambda>kv. PyStr (fst kv)) d"

text \<open>
  \<^verbatim>\<open>os.getpgid(pid)\<close>: TypeError when the argument is not an integer,
  OverflowError when it does not fit the C type of a PID, ProcessLookupError when no such
  process exists. For 0 it gives the group of the caller, which is \<open>pgid_of w 0\<close>
  here.
\<close>

definition os_getpgid :: "pyval \<Rightarrow> world \<Rightarrow> error + int" where
  "os_getpgid v w = (case v of
      PyStr s \<Rightarrow> Inl TypeError
    | PyInt p \<Rightarrow>
        if p < - 2147483648 \<or> 2147483647 < p then Inl OverflowError
        else if p = 0 then Inr (pgid_of w 0)
        else if p \<in> alive w then Inr (pgid_of w p)
        else Inl ProcessLookupError)"

text \<open>
  \<^verbatim>\<open>psutil.pid_exists(pid)\<close>: False for a negative PID; for the others it asks the
  system with \<^verbatim>\<open>os.kill(pid, 0)\<close>, which raises OverflowError when the PID does not
  fit the C type.
\<close>

definition pid_exists :: "int \<Rightarrow> world \<Rightarrow> error + bool" where
  "pid_exists pid w =
     (if pid < 0 then Inr False
      else if 2147483647 < pid then Inl OverflowError
      else Inr (pid \<in> alive w))"

text \<open>A \<^verbatim>\<open>for\<close> loop over a list read beforehand: a raise in the body ends the loop.\<close>

fun for_each :: "('a \<Rightarrow> 's \<Rightarrow> 's outcome) \<Rightarrow> 'a list \<Rightarrow> 's \<Rightarrow> 's outcome" where
  "for_each body [] s = Done s"
| "for_each body (x # xs) s = (case body x s of
      Done s' \<Rightarrow> for_each body xs s'
    | Raised e s' \<Rightarrow> Raised e s')"

text \<open>The state an outcome carries.\<close>

fun state_of :: "'s outcome \<Rightarrow> 's" where
  "state_of (Done s) = s"
| "state_of (Raised e s) = s"

text \<open>
  Modelled from the spec: \<^verbatim>\<open>close_by_pid\<close> of \<^verbatim>\<open>maro.cli.process.utils.details\<close> is
  not among the sources. The specification describes it as the process-signal
  collaborator: given a PID or a list of PIDs and a recursive flag it terminates the
  processes, optionally cascading to descendants, and a process that is already dead is
  a benign no-op. \<open>closed_pids\<close> are the processes that a call terminates: the PIDs
  given and, with the flag, all that is below them in the process tree. The model takes
  them out of the live set and records the call.
\<close>

definition closed_pids :: "int list \<Rightarrow> bool \<Rightarrow> world \<Rightarrow> int set" where
  "closed_pids pids recursive w =
     set pids \<union> (if recursive then (\<Union>p \<in> set pids. descendants w p) else {})"

definition close_by_pid :: "int list \<Rightarrow> bool \<Rightarrow> world \<Rightarrow> world" where
  "close_by_pid pids recursive w =
     w\<lparr>alive := alive w - closed_pids pids recursive w,
       trace := trace w @ [Close_by_pid pids recursive]\<rparr>"

subsection \<open>PendingJobAgent\<close>

text \<open>
  One pass of the inner loop body of \<^verbatim>\<open>_start_job\<close>: \<^verbatim>\<open>subprocess.Popen\<close> launches
  the shell, \<^verbatim>\<open>get_child_pid\<close> resolves the command's PID, and both are appended to
  \<^verbatim>\<open>pid_dict\<close>.

  Modelled from the spec: \<^verbatim>\<open>get_child_pid\<close> of \<^verbatim>\<open>maro.cli.process.utils.details\<close> is
  not among the sources. The specification says that it resolves the actual worker PID
  beneath the launching shell, the immediate child of the launcher; here it is the second
  PID of the pair that the system gives to the launch.
\<close>

definition spawn_instance ::
  "string \<Rightarrow> string \<Rightarrow> string \<Rightarrow> nat \<Rightarrow> pid_dict \<times> world \<Rightarrow> pid_dict \<times> world" where
  "spawn_instance job component_type cmd i dw = (case dw of (pid_dict, w) \<Rightarrow>
     (case os_pids w (launched w) of (shell_pid, command_pid) \<Rightarrow>
       (dd_append ''command_pids'' command_pid (dd_append ''shell_pids'' shell_pid pid_dict),
        w\<lparr>alive := alive w \<union> {shell_pid, command_pid},
          launched := Suc (launched w),
          trace := trace w @ [Popen job component_type i cmd]\<rparr>)))"

text \<open>\<^verbatim>\<open>for num in range(number)\<close> for one component type.\<close>

definition spawn_component ::
  "string \<Rightarrow> string \<times> component \<Rightarrow> pid_dict \<times> world \<Rightarrow> pid_dict \<times> world" where
  "spawn_component job item dw = (case item of (component_type, command_info) \<Rightarrow>
     fold (spawn_instance job component_type (command command_info))
       [0 ..< nat (num command_info)] dw)"

text \<open>The two nested loops of \<^verbatim>\<open>_start_job\<close>, from an empty \<^verbatim>\<open>pid_dict\<close>.\<close>

definition launch :: "job_spec \<Rightarrow> world \<Rightarrow> pid_dict \<times> world" where
  "launch job_details' w = fold (spawn_component (name job_details')) (components job_details') ([], w)"

text \<open>\<^verbatim>\<open>_start_job\<close>: the loops, then the one \<^verbatim>\<open>hset\<close> of the running-job hash.\<close>

definition start_job :: "job_spec \<Rightarrow> world \<Rightarrow> world" where
  "start_job job_details' w = (case launch job_details' w of (pid_dict, w') \<Rightarrow>
     hset_running_job (name job_details') (Doc pid_dict) w')"

text \<open>
  The body of the loop of \<^verbatim>\<open>_check_pending_ticket\<close> for one ticket. The job details are
  loaded before the cap is looked at; \<^verbatim>\<open>hlen\<close> is the number of fields.
\<close>

definition admit_ticket :: "string \<Rightarrow> world \<Rightarrow> world outcome" where
  "admit_ticket pending_job w = (case json_loads (map_of (job_details w) pending_job) of
      Inl e \<Rightarrow> Raised e w
    | Inr job_detail \<Rightarrow>
       (case py_int (map_of (setting w) ''parallel_level'') of
          Inl e \<Rightarrow> Raised e w
        | Inr parallel_level \<Rightarrow>
            if parallel_level > int (length (running_job w))
            then Done (lrem_pending pending_job (start_job job_detail w))
            else Done w))"

definition check_pending_ticket :: "world \<Rightarrow> world outcome" where
  "check_pending_ticket w = for_each admit_ticket (pending_job_tickets w) w"

subsection \<open>JobTrackingAgent\<close>

text \<open>
  A call of \<^verbatim>\<open>close_by_pid\<close> by the tracker: it returns to the tracker unless the
  tracker is among the processes that it terminates.
\<close>

definition tracker_close_by_pid :: "int list \<Rightarrow> bool \<Rightarrow> world \<Rightarrow> world outcome" where
  "tracker_close_by_pid pids recursive w =
     (if tracker_pid w \<in> closed_pids pids recursive w
      then Raised Killed (close_by_pid pids recursive w)
      else Done (close_by_pid pids recursive w))"

text \<open>
  The loop \<^verbatim>\<open>for pid in pid_dict["command_pids"]\<close>: it has no \<^verbatim>\<open>break\<close>, so
  every PID of the list is asked for.
\<close>

primrec pids_exist :: "int list \<Rightarrow> world \<Rightarrow> bool \<Rightarrow> error + bool" where
  "pids_exist [] w still_alive = Inr still_alive"
| "pids_exist (pid # pids) w still_alive = (case pid_exists pid w of
      Inl e \<Rightarrow> Inl e
    | Inr found \<Rightarrow> pids_exist pids w (if found then True else still_alive))"

text \<open>
  The body of the loop of \<^verbatim>\<open>_check_job_status\<close> for one item of \<^verbatim>\<open>hgetall\<close>.
  The \<^verbatim>\<open>hdel\<close> comes before \<^verbatim>\<open>pid_dict["shell_pids"]\<close> is evaluated.
\<close>

definition check_job :: "string \<times> pid_dict payload \<Rightarrow> world \<Rightarrow> world outcome" where
  "check_job item w = (case item of (job, raw) \<Rightarrow>
     (case json_loads (Some raw) of
        Inl e \<Rightarrow> Raised e w
      | Inr pid_dict \<Rightarrow>
         (case dict_get pid_dict ''command_pids'' of
            Inl e \<Rightarrow> Raised e w
          | Inr command_pids \<Rightarrow>
             (case pids_exist command_pids w False of
                Inl e \<Rightarrow> Raised e w
              | Inr still_alive \<Rightarrow>
                  if still_alive then Done w
                  else (let w1 = hdel_running_job job w in
                    (case dict_get pid_dict ''shell_pids'' of
                       Inl e \<Rightarrow> Raised e w1
                     | Inr shell_pids \<Rightarrow> tracker_close_by_pid shell_pids False w1))))))"

definition check_job_status :: "world \<Rightarrow> world outcome" where
  "check_job_status w = for_each check_job (running_job w) w"

text \<open>
  \<^verbatim>\<open>_close_process_cli\<close>, on the agent's \<^verbatim>\<open>_shutdown_count\<close> and the world. The
  single PID is passed to \<^verbatim>\<open>close_by_pid\<close> with \<^verbatim>\<open>recursive=True\<close>; the
  \<^verbatim>\<open>hset\<close> of \<^verbatim>\<open>agent_status\<close> is the statement after that call.
\<close>

definition close_process_cli :: "int \<times> world \<Rightarrow> (int \<times> world) outcome" where
  "close_process_cli cw = (case cw of (shutdown_count, w) \<Rightarrow>
     (let count' = (if length (running_job w) = 0 \<and> length (pending_job_tickets w) = 0
                    then shutdown_count + 1 else 0)
      in if count' \<ge> 5
         then (case py_int (map_of (setting w) ''agent_pid'') of
                 Inl e \<Rightarrow> Raised e (count', w)
               | Inr agent_pid \<Rightarrow>
                  (case tracker_close_by_pid [agent_pid] True w of
                     Raised e w' \<Rightarrow> Raised e (count', w')
                   | Done w' \<Rightarrow> Done (count', hset_setting ''agent_status'' (Digits 0) w')))
         else Done (count', w)))"

text \<open>
  One pass of the \<^verbatim>\<open>while True\<close> of \<^verbatim>\<open>JobTrackingAgent.run\<close>; the sleep changes
  nothing in a world that only this agent touches.
\<close>

definition tracker_cycle :: "int \<times> world \<Rightarrow> (int \<times> world) outcome" where
  "tracker_cycle cw = (case cw of (shutdown_count, w) \<Rightarrow>
     (case check_job_status w of
        Raised e w' \<Rightarrow> Raised e (shutdown_count, w')
      | Done w' \<Rightarrow>
         (case py_int (map_of (setting w') ''keep_agent_alive'') of
            Inl e \<Rightarrow> Raised e (shutdown_count, w')
          | Inr keep_alive \<Rightarrow>
              if keep_alive = 0 then close_process_cli (shutdown_count, w')
              else Done (shutdown_count, w'))))"

text \<open>The first \<open>n\<close> passes of the loop of \<^verbatim>\<open>run\<close>.\<close>

fun tracker_run :: "nat \<Rightarrow> int \<times> world \<Rightarrow> (int \<times> world) outcome" where
  "tracker_run 0 cw = Done cw"
| "tracker_run (Suc n) cw = (case tracker_cycle cw of
      Done cw' \<Rightarrow> tracker_run n cw'
    | Raised e cw' \<Rightarrow> Raised e cw')"

subsection \<open>KilledJobAgent\<close>

text \<open>\<^verbatim>\<open>os.killpg(os.getpgid(pid), signal.SIGTERM)\<close>.\<close>

definition killpg_of :: "pyval \<Rightarrow> world \<Rightarrow> world outcome" where
  "killpg_of pid w = (case os_getpgid pid w of
      Inl e \<Rightarrow> Raised e w
    | Inr pgid \<Rightarrow> Done (w\<lparr>trace := trace w @ [Killpg pgid]\<rparr>))"

text \<open>
  \<^verbatim>\<open>_stop_job\<close>: its argument \<^verbatim>\<open>pid_list\<close> is the dict that \<^verbatim>\<open>json.loads\<close> gave, and
  \<^verbatim>\<open>for pid in pid_list\<close> runs over it.
\<close>

definition stop_job :: "string \<Rightarrow> pid_dict \<Rightarrow> world \<Rightarrow> world outcome" where
  "stop_job job_name pid_list w = (case for_each killpg_of (dict_iter pid_list) w of
      Raised e w' \<Rightarrow> Raised e w'
    | Done w' \<Rightarrow> Done (hdel_running_job job_name w'))"

text \<open>The body of the loop of \<^verbatim>\<open>_check_kill_ticket\<close> for one ticket.\<close>

definition kill_ticket :: "string \<Rightarrow> world \<Rightarrow> world outcome" where
  "kill_ticket job_name w =
     (case (if map_of (running_job w) job_name \<noteq> None
            then (case json_loads (map_of (running_job w) job_name) of
                    Inl e \<Rightarrow> Raised e w
                  | Inr pid_list \<Rightarrow> stop_job job_name pid_list w)
            else Done (lrem_pending job_name w)) of
        Raised e w' \<Rightarrow> Raised e w'
      | Done w' \<Rightarrow> Done (lrem_killed job_name w'))"

definition check_kill_ticket :: "world \<Rightarrow> world outcome" where
  "check_kill_ticket w = for_each kill_ticket (killed_job_tickets w) w"

subsection \<open>Notions used by the properties\<close>

text \<open>
  The instances of a job, as the specification counts them: for each component type in
  turn, the indices from 0 to \<open>num - 1\<close>, each with the command of its type.
\<close>

definition instances :: "job_spec \<Rightarrow> (string \<times> nat \<times> string) list" where
  "instances jd = concat (map (\<lambda>item.
      map (\<lambda>i. (fst item, i, command (snd item))) [0 ..< nat (num (snd item))]) (components jd))"

text \<open>The launches of a list of instances, one after the other.\<close>

definition spawn_all ::
  "string \<Rightarrow> (string \<times> nat \<times> string) list \<Rightarrow> pid_dict \<times> world \<Rightarrow> pid_dict \<times> world" where
  "spawn_all job insts dw =
     fold (\<lambda>inst. spawn_instance job (fst inst) (snd (snd inst)) (fst (snd inst))) insts dw"

text \<open>
  The \<^verbatim>\<open>pid_dict\<close> that holds the PID pairs of the launches so far: no key before the
  first launch, then the two lists.
\<close>

definition dict_of :: "(int \<times> int) list \<Rightarrow> pid_dict" where
  "dict_of ps = (if ps = [] then []
     else [(''shell_pids'', map fst ps), (''command_pids'', map snd ps)])"

text \<open>
  A job is present in a content of Redis when it has a pending ticket or a field in the
  running-job hash.
\<close>

definition present :: "string \<Rightarrow> redis_state \<Rightarrow> bool" where
  "present job r = (case r of (pending, killed, details, running, settings) \<Rightarrow>
     job \<in> set pending \<or> job \<in> fst ` set running)"

text \<open>
  What makes the pass of a pending ticket fail, from the stored data: details that are
  missing or do not parse, a \<^verbatim>\<open>parallel_level\<close> that is missing or not a number.
\<close>

definition admit_failure :: "string \<Rightarrow> world \<Rightarrow> error option" where
  "admit_failure t w = (case map_of (job_details w) t of
      None \<Rightarrow> Some TypeError
    | Some Garbled \<Rightarrow> Some JSONDecodeError
    | Some (Doc jd) \<Rightarrow>
       (case map_of (setting w) ''parallel_level'' of
          None \<Rightarrow> Some TypeError
        | Some (Text x) \<Rightarrow> Some ValueError
        | Some (Digits n) \<Rightarrow> None))"

text \<open>
  What makes the pass of a kill ticket fail, from the stored data: a running record that
  does not parse, or one that has a key.
\<close>

definition kill_failure :: "string \<Rightarrow> world \<Rightarrow> error option" where
  "kill_failure t w = (case map_of (running_job w) t of
      None \<Rightarrow> None
    | Some Garbled \<Rightarrow> Some JSONDecodeError
    | Some (Doc []) \<Rightarrow> None
    | Some (Doc (kv # d)) \<Rightarrow> Some TypeError)"

text \<open>The PIDs that a stored running record holds under a key (none when it has no such key).\<close>

definition pids_of :: "string \<Rightarrow> pid_dict payload \<Rightarrow> int list" where
  "pids_of k raw = (case raw of Garbled \<Rightarrow> []
     | Doc d \<Rightarrow> (case map_of d k of None \<Rightarrow> [] | Some ps \<Rightarrow> ps))"

text \<open>
  A running record as the data model has it: it parses, has both keys, and its command
  PIDs fit the C type of a PID.
\<close>

definition wf_record :: "pid_dict payload \<Rightarrow> bool" where
  "wf_record raw = (case raw of Garbled \<Rightarrow> False
     | Doc d \<Rightarrow> map_of d ''shell_pids'' \<noteq> None \<and>
        (case map_of d ''command_pids'' of None \<Rightarrow> False
         | Some ps \<Rightarrow> list_all (\<lambda>p. p \<le> 2147483647) ps))"

text \<open>The shell PIDs recorded in the items of a running-job hash.\<close>

definition launchers :: "(string \<times> pid_dict payload) list \<Rightarrow> int set" where
  "launchers items = (\<Union>item \<in> set items. set (pids_of ''shell_pids'' (snd item)))"

text \<open>What the tracker does to a job that it finds finished: the \<^verbatim>\<open>hdel\<close>, then \<^verbatim>\<open>close_by_pid\<close>.\<close>

definition reap :: "string \<Rightarrow> pid_dict payload \<Rightarrow> world \<Rightarrow> world" where
  "reap j raw w = close_by_pid (pids_of ''shell_pids'' raw) False (hdel_running_job j w)"

subsection \<open>Example worlds\<close>

text \<open>
  The job of the specification's scenario, and a world as \<^verbatim>\<open>MasterAgent\<close> sets it
  up: the master (PID 7) has stored its PID under \<^verbatim>\<open>agent_pid\<close> and has started the
  three agents as its child processes (PID 8 the scheduler, 9 the kill processor, 10 the
  tracker); nothing is queued and nothing is running. What the scheduler launches is
  below the scheduler in the process tree: the PIDs from 50 on, a shell with an even PID
  and its command with the next one.
\<close>

definition job1 :: job_spec where
  "job1 = \<lparr>name = ''job1'', components =
     [(''driver'', \<lparr>num = 1, command = ''sleep 1''\<rparr>),
      (''worker'', \<lparr>num = 2, command = ''sleep 1''\<rparr>)]\<rparr>"

definition world0 :: world where
  "world0 = \<lparr>pending_job_tickets = [], killed_job_tickets = [], job_details = [],
     running_job = [],
     setting = [(''parallel_level'', Digits 1), (''keep_agent_alive'', Digits 0),
                (''agent_pid'', Digits 7)],
     alive = {7, 8, 9, 10}, os_pids = (\<lambda>k. (100 + 2 * int k, 101 + 2 * int k)),
     pgid_of = (\<lambda>p. 7), launched = 0, trace = [],
     descendants = (\<lambda>p. if p = 7 then {q. 8 \<le> q} else if p = 8 then {q. 50 \<le> q}
       else if 50 \<le> p \<and> even p then {p + 1} else {}),
     tracker_pid = 10, history = []\<rparr>"

text \<open>A job with one instance is running, and a kill ticket names it.\<close>

definition kill_world :: world where
  "kill_world = world0\<lparr>killed_job_tickets := [''job1''],
     running_job := [(''job1'', Doc [(''shell_pids'', [100]), (''command_pids'', [101])])],
     alive := {7, 8, 9, 10, 100, 101}\<rparr>"

text \<open>Two pending jobs, none running, \<^verbatim>\<open>parallel_level\<close> 1.\<close>

definition job2 :: job_spec where
  "job2 = \<lparr>name = ''job2'', components = [(''driver'', \<lparr>num = 1, command = ''sleep 1''\<rparr>)]\<rparr>"

definition sched_world :: world where
  "sched_world = world0\<lparr>pending_job_tickets := [''job1'', ''job2''],
     job_details := [(''job1'', Doc job1), (''job2'', Doc job2)]\<rparr>"

text \<open>The same with a job running already: the cap is reached.\<close>

definition full_world :: world where
  "full_world = sched_world\<lparr>
     running_job := [(''job0'', Doc [(''shell_pids'', [50]), (''command_pids'', [51])])],
     alive := {7, 8, 9, 10, 50, 51}\<rparr>"

text \<open>Kill tickets for two jobs that are pending and not running.\<close>

definition pending_kill_world :: world where
  "pending_kill_world = full_world\<lparr>killed_job_tickets := [''job2'', ''job1'']\<rparr>"

text \<open>A pending ticket whose stored details do not parse, before a ticket that is in order.\<close>

definition bad_sched_world :: world where
  "bad_sched_world = world0\<lparr>pending_job_tickets := [''bad'', ''job1''],
     job_details := [(''bad'', Garbled), (''job1'', Doc job1)]\<rparr>"

text \<open>A kill ticket whose running record does not parse, before a kill ticket for a pending job.\<close>

definition bad_kill_world :: world where
  "bad_kill_world = world0\<lparr>pending_job_tickets := [''job2''],
     killed_job_tickets := [''bad'', ''job2''],
     running_job := [(''bad'', Garbled)]\<rparr>"

text \<open>
  Three running jobs: one whose command has gone, one with empty PID lists, one whose
  command is alive.
\<close>

definition tracker_world :: world where
  "tracker_world = world0\<lparr>running_job :=
       [(''done'', Doc [(''shell_pids'', [200]), (''command_pids'', [201])]),
        (''empty'', Doc [(''shell_pids'', []), (''command_pids'', [])]),
        (''busy'', Doc [(''shell_pids'', [300]), (''command_pids'', [301])])],
     alive := {7, 8, 9, 10, 200, 300, 301}\<rparr>"

text \<open>A pending ticket that cannot be admitted (the cap is 0), nothing running.\<close>

definition waiting_world :: world where
  "waiting_world = world0\<lparr>pending_job_tickets := [''job1''],
     setting := [(''parallel_level'', Digits 0), (''keep_agent_alive'', Digits 0),
                 (''agent_pid'', Digits 7)]\<rparr>"

text \<open>Nothing queued, nothing running, and \<^verbatim>\<open>keep_agent_alive\<close> set.\<close>

definition kept_world :: world where
  "kept_world = world0\<lparr>setting := [(''parallel_level'', Digits 1),
     (''keep_agent_alive'', Digits 1), (''agent_pid'', Digits 7)]\<rparr>"

text \<open>A job without instances.\<close>

definition empty_job :: job_spec where
  "empty_job = \<lparr>name = ''empty_job'', components = []\<rparr>"

text \<open>
  Kill tickets for job1, which is running, and then for job2, which is only pending.
\<close>

definition mixed_kill_world :: world where
  "mixed_kill_world = kill_world\<lparr>pending_job_tickets := [''job2''],
     killed_job_tickets := [''job1'', ''job2'']\<rparr>"

text \<open>
  Three pending tickets, the second with details that do not parse; the cap allows all.
\<close>

definition mid_bad_sched_world :: world where
  "mid_bad_sched_world = world0\<lparr>pending_job_tickets := [''job1'', ''bad'', ''job2''],
     job_details := [(''job1'', Doc job1), (''bad'', Garbled), (''job2'', Doc job2)],
     setting := [(''parallel_level'', Digits 5), (''keep_agent_alive'', Digits 0),
                 (''agent_pid'', Digits 7)]\<rparr>"

text \<open>
  Three kill tickets: for job2, which is pending, for job1, which is running, and for
  job3, which is pending.
\<close>

definition mid_bad_kill_world :: world where
  "mid_bad_kill_world = kill_world\<lparr>pending_job_tickets := [''job2'', ''job3''],
     killed_job_tickets := [''job2'', ''job1'', ''job3'']\<rparr>"

section \<open>Properties\<close>

subsection \<open>Killing a running job\<close>

text \<open>
  The loop of \<^verbatim>\<open>_stop_job\<close> runs over the keys of the stored dict, so its first pass
  hands the text \<^verbatim>\<open>"shell_pids"\<close> to \<^verbatim>\<open>os.getpgid\<close>: whenever the record has a key,
  \<^verbatim>\<open>_stop_job\<close> raises TypeError before any signal is sent and before the \<^verbatim>\<open>hdel\<close>.
\<close>

lemma stop_job_raises:
  "pid_list \<noteq> [] \<Longrightarrow> stop_job job_name pid_list w = Raised TypeError w"
  by (cases pid_list) (simp_all add: stop_job_def dict_iter_def killpg_of_def os_getpgid_def)

text \<open>Only a record without keys, which a job without instances gets, passes the loop.\<close>

lemma stop_job_no_keys:
  "stop_job j [] w = Done (hdel_running_job j w)"
  by (simp add: stop_job_def dict_iter_def)

text \<open>
  Claim C1 (a kill ticket for a running job: its process groups are signalled, its
  RunningRecord is deleted and the kill ticket is removed, in one cycle). The code does
  not do this: with job1 running under the record
  \<^verbatim>\<open>{"shell_pids": [100], "command_pids": [101]}\<close> and one kill ticket for job1, the
  cycle raises TypeError and leaves the world as it was: no signal in the trace, the
  record still in the running-job hash, the kill ticket still in its list.
\<close>

theorem kill_running_job_raises:
  "check_kill_ticket kill_world = Raised TypeError kill_world"
  by (simp add: check_kill_ticket_def kill_world_def world0_def kill_ticket_def json_loads_def
      stop_job_def dict_iter_def killpg_of_def os_getpgid_def)

subsection \<open>Loops\<close>

lemma for_each_invariant:
  assumes "\<And>x s. P s \<Longrightarrow> P (state_of (body x s))" and "P s"
  shows "P (state_of (for_each body xs s))"
  using assms(2)
proof (induction xs arbitrary: s)
  case Nil
  then show ?case by simp
next
  case (Cons x xs)
  from assms(1) [OF Cons.prems, of x] Cons.IH show ?case
    by (cases "body x s") simp_all
qed

lemma for_each_append:
  "for_each body (xs @ ys) s =
     (case for_each body xs s of Done s' \<Rightarrow> for_each body ys s' | Raised e s' \<Rightarrow> Raised e s')"
  by (induction xs arbitrary: s) (simp_all split: outcome.splits)

lemma for_each_invariant_on:
  assumes "\<And>x s. x \<in> set xs \<Longrightarrow> P s \<Longrightarrow> P (state_of (body x s))" and "P s"
  shows "P (state_of (for_each body xs s))"
  using assms
proof (induction xs arbitrary: s)
  case Nil
  then show ?case by simp
next
  case (Cons x xs)
  have "P (state_of (body x s))" using Cons.prems by simp
  moreover have "\<And>s'. P s' \<Longrightarrow> P (state_of (for_each body xs s'))"
    using Cons.IH Cons.prems(1) by simp
  ultimately show ?case by (cases "body x s") simp_all
qed

lemma for_each_raise_at:
  assumes "\<And>s. for_each body pre w = Done s \<Longrightarrow> body t s = Raised err s"
  shows "for_each body (pre @ t # post) w =
     (case for_each body pre w of Done s \<Rightarrow> Raised err s | Raised e s \<Rightarrow> Raised e s)"
  using assms by (cases "for_each body pre w") (simp_all add: for_each_append)

subsection \<open>Starting a job\<close>

lemma spawn_component_all:
  "spawn_component job item dw =
     spawn_all job (map (\<lambda>i. (fst item, i, command (snd item))) [0 ..< nat (num (snd item))]) dw"
  by (cases item) (simp add: spawn_component_def spawn_all_def fold_map comp_def)

lemma spawn_all_append: "spawn_all job (xs @ ys) dw = spawn_all job ys (spawn_all job xs dw)"
  by (simp add: spawn_all_def)

lemma fold_spawn_component:
  "fold (spawn_component job) items dw =
     spawn_all job (concat (map (\<lambda>item.
       map (\<lambda>i. (fst item, i, command (snd item))) [0 ..< nat (num (snd item))]) items)) dw"
  by (induction items arbitrary: dw)
     (simp_all add: spawn_all_append spawn_component_all, simp add: spawn_all_def)

lemma launch_spawn_all: "launch jd w = spawn_all (name jd) (instances jd) ([], w)"
  by (simp add: launch_def instances_def fold_spawn_component)

lemma spawn_instance_dict_of:
  "spawn_instance job ct cmd i (dict_of ps, w) =
     (dict_of (ps @ [os_pids w (launched w)]),
      w\<lparr>alive := alive w \<union> {fst (os_pids w (launched w)), snd (os_pids w (launched w))},
        launched := Suc (launched w), trace := trace w @ [Popen job ct i cmd]\<rparr>)"
  by (cases "os_pids w (launched w)") (simp add: spawn_instance_def dict_of_def dd_append_def)

lemma spawn_all_closed:
  "spawn_all job insts (dict_of ps, w) =
     (dict_of (ps @ map (\<lambda>k. os_pids w (launched w + k)) [0 ..< length insts]),
      w\<lparr>alive := alive w \<union> (\<Union>k<length insts.
          {fst (os_pids w (launched w + k)), snd (os_pids w (launched w + k))}),
        launched := launched w + length insts,
        trace := trace w @
          map (\<lambda>inst. Popen job (fst inst) (fst (snd inst)) (snd (snd inst))) insts\<rparr>)"
proof (induction insts rule: rev_induct)
  case Nil
  show ?case by (simp add: spawn_all_def)
next
  case (snoc x xs)
  show ?case
    by (simp add: spawn_all_append snoc.IH)
       (simp add: spawn_all_def spawn_instance_dict_of lessThan_Suc Un_commute Un_left_commute
          insert_commute)
qed

lemma spawn_all_from_empty:
  "spawn_all job insts ([], w) =
     (dict_of (map (\<lambda>k. os_pids w (launched w + k)) [0 ..< length insts]),
      w\<lparr>alive := alive w \<union> (\<Union>k<length insts.
          {fst (os_pids w (launched w + k)), snd (os_pids w (launched w + k))}),
        launched := launched w + length insts,
        trace := trace w @
          map (\<lambda>inst. Popen job (fst inst) (fst (snd inst)) (snd (snd inst))) insts\<rparr>)"
  using spawn_all_closed [of job insts "[]" w] by (simp add: dict_of_def)

lemma redis_spawn_all: "redis (snd (spawn_all job insts ([], w))) = redis w"
  by (simp add: spawn_all_from_empty redis_def)


lemma history_spawn_all: "history (snd (spawn_all job insts ([], w))) = history w"
  by (simp add: spawn_all_from_empty)

lemma start_job_eq:
  "start_job jd w = (snd (launch jd w))\<lparr>
     running_job := AList.update (name jd) (Doc (fst (launch jd w))) (running_job w),
     history := history w @ [(pending_job_tickets w, killed_job_tickets w, job_details w,
       AList.update (name jd) (Doc (fst (launch jd w))) (running_job w), setting w)]\<rparr>"
  by (simp add: start_job_def launch_spawn_all spawn_all_from_empty hset_running_job_def
      logged_def redis_def)

lemma running_start_job:
  "running_job (start_job jd w) = AList.update (name jd) (Doc (fst (launch jd w))) (running_job w)"
  by (simp add: start_job_eq)

lemma pending_start_job: "pending_job_tickets (start_job jd w) = pending_job_tickets w"
  by (simp add: start_job_eq launch_spawn_all spawn_all_from_empty)

lemma setting_start_job: "setting (start_job jd w) = setting w"
  by (simp add: start_job_eq launch_spawn_all spawn_all_from_empty)

lemma details_start_job: "job_details (start_job jd w) = job_details w"
  by (simp add: start_job_eq launch_spawn_all spawn_all_from_empty)

text \<open>
  A job without instances (no component, or every \<open>num\<close> at most 0) gets a record
  without keys: a \<^verbatim>\<open>defaultdict\<close> has a key only once something was appended.
\<close>

lemma start_job_no_instances:
  "instances jd = [] \<Longrightarrow> map_of (running_job (start_job jd w)) (name jd) = Some (Doc [])"
  by (simp add: running_start_job launch_spawn_all spawn_all_from_empty dict_of_def update_conv')


subsection \<open>Admission\<close>

text \<open>
  Claim C9. When a pending ticket is admitted (its details are stored under its own name,
  the cap is not reached), the job is present in Redis at every point of the admission.
  The launches write nothing: after any number of them Redis and its history are as
  before the admission, where the job is pending. The admission then makes two writes, in
  this order: the \<^verbatim>\<open>hset\<close> of \<^verbatim>\<open>_start_job\<close>, which leaves the job both pending and
  in the running-job hash, and the \<^verbatim>\<open>lrem\<close>, which leaves it in the running-job hash
  only. So the job is present in every content of Redis that the admission adds to the
  history.
\<close>

theorem admission_never_loses_job:
  assumes "map_of (job_details w) t = Some (Doc jd)" and "name jd = t"
    and "t \<in> set (pending_job_tickets w)"
    and "py_int (map_of (setting w) ''parallel_level'') = Inr cap"
    and "int (length (running_job w)) < cap"
  shows "admit_ticket t w = Done (lrem_pending t (start_job jd w))
    \<and> (\<forall>n. redis (snd (spawn_all t (take n (instances jd)) ([], w))) = redis w
          \<and> history (snd (spawn_all t (take n (instances jd)) ([], w))) = history w)
    \<and> present t (redis w)
    \<and> history (lrem_pending t (start_job jd w)) =
        history w @ [redis (start_job jd w), redis (lrem_pending t (start_job jd w))]
    \<and> t \<in> set (pending_job_tickets (start_job jd w))
    \<and> t \<in> fst ` set (running_job (start_job jd w))
    \<and> t \<notin> set (pending_job_tickets (lrem_pending t (start_job jd w)))
    \<and> t \<in> fst ` set (running_job (lrem_pending t (start_job jd w)))
    \<and> (\<forall>r \<in> set (drop (length (history w)) (history (state_of (admit_ticket t w)))).
          present t r)"
proof -
  have a: "admit_ticket t w = Done (lrem_pending t (start_job jd w))"
    using assms by (simp add: admit_ticket_def json_loads_def)
  have b: "\<forall>n. redis (snd (spawn_all t (take n (instances jd)) ([], w))) = redis w
          \<and> history (snd (spawn_all t (take n (instances jd)) ([], w))) = history w"
    by (simp only: redis_spawn_all history_spawn_all) simp
  have c: "present t (redis w)"
    using assms(3) by (simp add: present_def redis_def)
  have p1: "t \<in> set (pending_job_tickets (start_job jd w))"
    using assms(3) by (simp add: pending_start_job)
  have r1: "t \<in> fst ` set (running_job (start_job jd w))"
    using assms(2) by (simp add: running_start_job dom_update)
  have h: "history (lrem_pending t (start_job jd w)) =
        history w @ [redis (start_job jd w), redis (lrem_pending t (start_job jd w))]"
    by (simp add: lrem_pending_def logged_def redis_def start_job_eq launch_spawn_all
        spawn_all_from_empty)
  have p2: "t \<notin> set (pending_job_tickets (lrem_pending t (start_job jd w)))"
    by (simp add: lrem_pending_def logged_def)
  have r2: "t \<in> fst ` set (running_job (lrem_pending t (start_job jd w)))"
    using r1 by (simp add: lrem_pending_def logged_def)
  have "present t (redis (start_job jd w))"
    using p1 by (simp add: present_def redis_def)
  moreover have "present t (redis (lrem_pending t (start_job jd w)))"
    using r2 by (simp add: present_def redis_def)
  ultimately have e: "\<forall>r \<in> set (drop (length (history w))
      (history (state_of (admit_ticket t w)))). present t r"
    by (simp add: a h)
  show ?thesis using a b c h p1 r1 p2 r2 e by blast
qed

theorem admission_never_loses_job_witness:
  "map_of (job_details sched_world) ''job1'' = Some (Doc job1) \<and> name job1 = ''job1''
   \<and> ''job1'' \<in> set (pending_job_tickets sched_world)
   \<and> py_int (map_of (setting sched_world) ''parallel_level'') = Inr 1
   \<and> int (length (running_job sched_world)) < 1
   \<and> admit_ticket ''job1'' sched_world = Done (lrem_pending ''job1'' (start_job job1 sched_world))
   \<and> history (state_of (admit_ticket ''job1'' sched_world)) =
       [redis (start_job job1 sched_world),
        redis (lrem_pending ''job1'' (start_job job1 sched_world))]
   \<and> present ''job1'' (redis (start_job job1 sched_world))
   \<and> present ''job1'' (redis (lrem_pending ''job1'' (start_job job1 sched_world)))
   \<and> ''job1'' \<in> fst ` set (running_job (start_job job1 sched_world))
   \<and> ''job1'' \<in> set (pending_job_tickets (start_job job1 sched_world))"
proof -
  have h1: "map_of (job_details sched_world) ''job1'' = Some (Doc job1)"
    by (simp add: sched_world_def world0_def)
  have h2: "name job1 = ''job1''" by (simp add: job1_def)
  have h3: "''job1'' \<in> set (pending_job_tickets sched_world)"
    by (simp add: sched_world_def world0_def)
  have h4: "py_int (map_of (setting sched_world) ''parallel_level'') = Inr 1"
    by (simp add: sched_world_def world0_def py_int_def)
  have h5: "int (length (running_job sched_world)) < 1" by (simp add: sched_world_def world0_def)
  have h6: "history sched_world = []" by (simp add: sched_world_def world0_def)
  note t = admission_never_loses_job [OF h1 h2 h3 h4 h5]
  from t have a: "admit_ticket ''job1'' sched_world =
      Done (lrem_pending ''job1'' (start_job job1 sched_world))" by blast
  from t h6 have b: "history (lrem_pending ''job1'' (start_job job1 sched_world)) =
       [redis (start_job job1 sched_world),
        redis (lrem_pending ''job1'' (start_job job1 sched_world))]" by simp
  from t a b have c: "present ''job1'' (redis (start_job job1 sched_world))
      \<and> present ''job1'' (redis (lrem_pending ''job1'' (start_job job1 sched_world)))"
    by (simp add: h6)
  from t have d: "''job1'' \<in> fst ` set (running_job (start_job job1 sched_world))
      \<and> ''job1'' \<in> set (pending_job_tickets (start_job job1 sched_world))" by blast
  show ?thesis using h1 h2 h3 h4 h5 a b c d by simp
qed

lemma length_update_le: "int (length (AList.update k v al)) \<le> int (length al) + 1"
  by (induction al) auto

lemma admit_ticket_keeps:
  "setting (state_of (admit_ticket t w)) = setting w
   \<and> job_details (state_of (admit_ticket t w)) = job_details w"
  by (simp add: admit_ticket_def lrem_pending_def logged_def setting_start_job details_start_job
      split: sum.splits)

lemma admit_ticket_count:
  assumes "py_int (map_of (setting w) ''parallel_level'') = Inr cap"
  shows "int (length (running_job (state_of (admit_ticket t w))))
    \<le> max cap (int (length (running_job w)))"
proof (cases "admit_ticket t w = Done w \<or> (\<exists>e. admit_ticket t w = Raised e w)")
  case True
  then show ?thesis by auto
next
  case False
  then obtain jd where a: "admit_ticket t w = Done (lrem_pending t (start_job jd w))"
    and c: "int (length (running_job w)) < cap"
    using assms by (auto simp add: admit_ticket_def split: sum.splits if_splits)
  from length_update_le [of "name jd" "Doc (fst (launch jd w))" "running_job w"] c
  show ?thesis by (simp add: a lrem_pending_def logged_def running_start_job)
qed

lemma admit_loop_count:
  assumes "py_int (map_of (setting w) ''parallel_level'') = Inr cap"
  shows "int (length (running_job (state_of (for_each admit_ticket ts w))))
       \<le> max cap (int (length (running_job w)))
     \<and> setting (state_of (for_each admit_ticket ts w)) = setting w"
proof -
  let ?P = "\<lambda>s::world. int (length (running_job s)) \<le> max cap (int (length (running_job w)))
     \<and> setting s = setting w"
  have step: "\<And>x s. ?P s \<Longrightarrow> ?P (state_of (admit_ticket x s))"
  proof -
    fix x s assume p: "?P s"
    then have c: "py_int (map_of (setting s) ''parallel_level'') = Inr cap" using assms by simp
    from admit_ticket_count [OF c, of x] p admit_ticket_keeps [of x s]
    show "?P (state_of (admit_ticket x s))" by auto
  qed
  have "?P w" by simp
  from for_each_invariant [where P = ?P and body = admit_ticket, OF step this]
  show ?thesis by simp
qed

text \<open>
  Claim C2. With one scheduler at work, after each admission decision of a cycle (that is,
  after the first \<open>n\<close> tickets of the list, for every \<open>n\<close>, and at the end of the
  cycle) the running-job hash has at most \<^verbatim>\<open>parallel_level\<close> fields, unless it had more
  before the cycle, and then it has not grown; the setting is as before. A ticket is
  admitted only when the count is below the cap, and the count is within the cap right
  after the \<^verbatim>\<open>hset\<close> and after the \<^verbatim>\<open>lrem\<close> of an admission.
\<close>

theorem running_count_within_parallel_level:
  assumes "py_int (map_of (setting w) ''parallel_level'') = Inr cap"
  shows "(\<forall>n. int (length (running_job (state_of
             (for_each admit_ticket (take n (pending_job_tickets w)) w))))
           \<le> max cap (int (length (running_job w)))
         \<and> setting (state_of (for_each admit_ticket (take n (pending_job_tickets w)) w))
           = setting w)
    \<and> int (length (running_job (state_of (check_pending_ticket w))))
           \<le> max cap (int (length (running_job w)))
    \<and> (\<forall>t jd. map_of (job_details w) t = Some (Doc jd) \<and> int (length (running_job w)) < cap \<longrightarrow>
          admit_ticket t w = Done (lrem_pending t (start_job jd w))
          \<and> int (length (running_job (start_job jd w))) \<le> cap
          \<and> int (length (running_job (lrem_pending t (start_job jd w)))) \<le> cap)"
proof -
  have a: "\<forall>t jd. map_of (job_details w) t = Some (Doc jd) \<and> int (length (running_job w)) < cap \<longrightarrow>
          admit_ticket t w = Done (lrem_pending t (start_job jd w))
          \<and> int (length (running_job (start_job jd w))) \<le> cap
          \<and> int (length (running_job (lrem_pending t (start_job jd w)))) \<le> cap"
  proof (intro allI impI, elim conjE)
    fix t jd
    assume d: "map_of (job_details w) t = Some (Doc jd)"
      and c: "int (length (running_job w)) < cap"
    from length_update_le [of "name jd" "Doc (fst (launch jd w))" "running_job w"] c
    have "int (length (running_job (start_job jd w))) \<le> cap" by (simp add: running_start_job)
    then show "admit_ticket t w = Done (lrem_pending t (start_job jd w))
          \<and> int (length (running_job (start_job jd w))) \<le> cap
          \<and> int (length (running_job (lrem_pending t (start_job jd w)))) \<le> cap"
      using assms d c by (simp add: admit_ticket_def json_loads_def lrem_pending_def logged_def)
  qed
  show ?thesis
    using admit_loop_count [OF assms] a unfolding check_pending_ticket_def by blast
qed

theorem running_count_within_parallel_level_witness:
  "py_int (map_of (setting sched_world) ''parallel_level'') = Inr 1
   \<and> int (length (running_job (state_of (check_pending_ticket sched_world)))) \<le> 1"
proof -
  have h: "py_int (map_of (setting sched_world) ''parallel_level'') = Inr 1"
    by (simp add: sched_world_def world0_def py_int_def)
  have z: "running_job sched_world = []" by (simp add: sched_world_def world0_def)
  from running_count_within_parallel_level [OF h] h z show ?thesis by simp
qed

lemma admit_ticket_cap_reached:
  assumes "py_int (map_of (setting w) ''parallel_level'') = Inr cap"
    and "cap \<le> int (length (running_job w))"
  shows "state_of (admit_ticket t w) = w"
  using assms by (simp add: admit_ticket_def split: sum.splits)

lemma admit_ticket_cap_reached_done:
  assumes "py_int (map_of (setting w) ''parallel_level'') = Inr cap"
    and "cap \<le> int (length (running_job w))"
    and "map_of (job_details w) t = Some (Doc jd)"
  shows "admit_ticket t w = Done w"
  using assms by (simp add: admit_ticket_def json_loads_def)

text \<open>
  Claim C7. When the cap is reached at a ticket, the ticket is neither spawned nor
  removed: the world after its pass is the world before it, and so it is after the
  passes of any further tickets \<open>ts\<close> of the list. When the details of those tickets
  load, the loop runs through all of them and completes, leaving every ticket in place for
  the next cycle.
\<close>

theorem cap_reached_leaves_tickets:
  assumes "py_int (map_of (setting w) ''parallel_level'') = Inr cap"
    and "cap \<le> int (length (running_job w))"
  shows "state_of (admit_ticket t w) = w
    \<and> state_of (for_each admit_ticket ts w) = w
    \<and> ((\<forall>t \<in> set ts. \<exists>jd. map_of (job_details w) t = Some (Doc jd)) \<longrightarrow>
         for_each admit_ticket ts w = Done w)"
proof -
  have a: "state_of (for_each admit_ticket ts w) = w"
    by (rule for_each_invariant [where P = "\<lambda>s. s = w"])
       (simp_all add: admit_ticket_cap_reached [OF assms])
  have b: "(\<forall>t \<in> set ts. \<exists>jd. map_of (job_details w) t = Some (Doc jd)) \<longrightarrow>
      for_each admit_ticket ts w = Done w"
    by (induction ts) (auto simp add: admit_ticket_cap_reached_done [OF assms])
  show ?thesis using a b admit_ticket_cap_reached [OF assms] by blast
qed

theorem cap_reached_leaves_tickets_witness:
  "py_int (map_of (setting full_world) ''parallel_level'') = Inr 1
   \<and> 1 \<le> int (length (running_job full_world))
   \<and> list_all (\<lambda>t. map_of (job_details full_world) t \<noteq> None
        \<and> map_of (job_details full_world) t \<noteq> Some Garbled) (pending_job_tickets full_world)
   \<and> check_pending_ticket full_world = Done full_world"
proof -
  have h1: "py_int (map_of (setting full_world) ''parallel_level'') = Inr 1"
    by (simp add: full_world_def sched_world_def world0_def py_int_def)
  have h2: "1 \<le> int (length (running_job full_world))"
    by (simp add: full_world_def sched_world_def world0_def)
  have h3: "\<forall>t \<in> set (pending_job_tickets full_world).
      \<exists>jd. map_of (job_details full_world) t = Some (Doc jd)"
    by (simp add: full_world_def sched_world_def world0_def)
  have h4: "list_all (\<lambda>t. map_of (job_details full_world) t \<noteq> None
        \<and> map_of (job_details full_world) t \<noteq> Some Garbled) (pending_job_tickets full_world)"
    by (simp add: full_world_def sched_world_def world0_def)
  from cap_reached_leaves_tickets [OF h1 h2, of _ "pending_job_tickets full_world"] h3
  have "check_pending_ticket full_world = Done full_world"
    unfolding check_pending_ticket_def by blast
  with h1 h2 h4 show ?thesis by blast
qed

subsection \<open>Kill tickets for jobs that are not running\<close>

text \<open>
  The pass of a kill ticket for a job with no field in the running-job hash is the
  \<^verbatim>\<open>lrem\<close> of the pending list and then the \<^verbatim>\<open>lrem\<close> of the kill list: every
  occurrence of the job leaves both lists, and nothing is launched.
\<close>

lemma kill_ticket_not_running:
  assumes "map_of (running_job w) j = None"
  shows "kill_ticket j w = Done (lrem_killed j (lrem_pending j w))"
  using assms by (simp add: kill_ticket_def)

lemma kill_ticket_not_running_lists:
  assumes "map_of (running_job w) j = None"
  shows "pending_job_tickets (state_of (kill_ticket j w)) = removeAll j (pending_job_tickets w)
    \<and> killed_job_tickets (state_of (kill_ticket j w)) = removeAll j (killed_job_tickets w)
    \<and> running_job (state_of (kill_ticket j w)) = running_job w
    \<and> launched (state_of (kill_ticket j w)) = launched w
    \<and> trace (state_of (kill_ticket j w)) = trace w"
  by (simp add: kill_ticket_not_running [OF assms] lrem_killed_def lrem_pending_def logged_def)

text \<open>A cycle whose kill tickets all name jobs that are not running handles every ticket.\<close>

lemma kill_loop_not_running:
  assumes "\<forall>t \<in> set ts. map_of (running_job w) t = None"
  shows "\<exists>w'. for_each kill_ticket ts w = Done w'
     \<and> pending_job_tickets w' = filter (\<lambda>t. t \<notin> set ts) (pending_job_tickets w)
     \<and> killed_job_tickets w' = filter (\<lambda>t. t \<notin> set ts) (killed_job_tickets w)
     \<and> running_job w' = running_job w \<and> launched w' = launched w \<and> trace w' = trace w"
  using assms
proof (induction ts arbitrary: w)
  case Nil
  then show ?case by simp
next
  case (Cons a ts)
  let ?w1 = "lrem_killed a (lrem_pending a w)"
  have n: "map_of (running_job w) a = None" using Cons.prems by simp
  have s: "kill_ticket a w = Done ?w1" by (rule kill_ticket_not_running [OF n])
  have l: "pending_job_tickets ?w1 = removeAll a (pending_job_tickets w)
    \<and> killed_job_tickets ?w1 = removeAll a (killed_job_tickets w)
    \<and> running_job ?w1 = running_job w \<and> launched ?w1 = launched w \<and> trace ?w1 = trace w"
    using kill_ticket_not_running_lists [OF n] by (simp add: s)
  then have r: "\<forall>t \<in> set ts. map_of (running_job ?w1) t = None" using Cons.prems by simp
  have f: "\<And>xs. filter (\<lambda>t. t \<notin> set ts) (removeAll a xs) = filter (\<lambda>t. t \<notin> set (a # ts)) xs"
    by (auto simp add: removeAll_filter_not_eq intro: filter_cong)
  from Cons.IH [OF r] obtain w' where
    w': "for_each kill_ticket ts ?w1 = Done w'"
      "pending_job_tickets w' = filter (\<lambda>t. t \<notin> set ts) (pending_job_tickets ?w1)"
      "killed_job_tickets w' = filter (\<lambda>t. t \<notin> set ts) (killed_job_tickets ?w1)"
      "running_job w' = running_job ?w1" "launched w' = launched ?w1" "trace w' = trace ?w1"
    by blast
  have "for_each kill_ticket (a # ts) w = Done w'"
    by (simp only: for_each.simps s outcome.case w'(1))
  then show ?case using w' l f by auto
qed

lemma kill_loop_not_running_example:
  "\<exists>w'. check_kill_ticket pending_kill_world = Done w'
     \<and> pending_job_tickets w' = [] \<and> killed_job_tickets w' = []
     \<and> launched w' = launched pending_kill_world"
proof -
  have r: "\<forall>t \<in> set (killed_job_tickets pending_kill_world).
      map_of (running_job pending_kill_world) t = None"
    and k: "killed_job_tickets pending_kill_world = [''job2'', ''job1'']"
    and q: "pending_job_tickets pending_kill_world = [''job1'', ''job2'']"
    by (simp_all add: pending_kill_world_def full_world_def sched_world_def world0_def)
  from kill_loop_not_running [OF r] show ?thesis
    unfolding check_kill_ticket_def by (auto simp add: k q)
qed

text \<open>
  Claim C5 (a kill ticket for a job that is not running is handled by the cycle: the
  job's pending tickets and the kill ticket are removed). The code does this in the pass
  of such a ticket, but the cycle does not always reach that pass: with the kill list
  \<^verbatim>\<open>[job1, job2]\<close>, job1 running and job2 only pending, the pass of job1 raises
  TypeError (the loop of \<^verbatim>\<open>_stop_job\<close> over the keys of the record, as in claim C1)
  and the cycle ends with the world as it was: job2, which has no running record, keeps
  its pending ticket and its kill ticket, which its own pass would have removed.
\<close>

theorem kill_cycle_stops_before_pending_job:
  "check_kill_ticket mixed_kill_world = Raised TypeError mixed_kill_world
   \<and> killed_job_tickets mixed_kill_world = [''job1'', ''job2'']
   \<and> map_of (running_job mixed_kill_world) ''job2'' = None
   \<and> ''job2'' \<in> set (pending_job_tickets mixed_kill_world)
   \<and> ''job2'' \<notin> set (pending_job_tickets (state_of (kill_ticket ''job2'' mixed_kill_world)))
   \<and> ''job2'' \<notin> set (killed_job_tickets (state_of (kill_ticket ''job2'' mixed_kill_world)))"
proof -
  have r: "running_job mixed_kill_world =
      [(''job1'', Doc [(''shell_pids'', [100]), (''command_pids'', [101])])]"
    and k: "killed_job_tickets mixed_kill_world = [''job1'', ''job2'']"
    and p: "pending_job_tickets mixed_kill_world = [''job2'']"
    by (simp_all add: mixed_kill_world_def kill_world_def world0_def)
  have "kill_ticket ''job1'' mixed_kill_world = Raised TypeError mixed_kill_world"
    by (simp add: kill_ticket_def r json_loads_def stop_job_raises)
  then have a: "check_kill_ticket mixed_kill_world = Raised TypeError mixed_kill_world"
    by (simp add: check_kill_ticket_def k)
  have n: "map_of (running_job mixed_kill_world) ''job2'' = None" by (simp add: r)
  show ?thesis
    using a k n p kill_ticket_not_running_lists [OF n] by simp
qed

subsection \<open>A failure in the pass of one ticket\<close>

lemma admit_failure_raises:
  assumes "admit_failure t w = Some e"
  shows "admit_ticket t w = Raised e w"
  using assms
  by (auto simp add: admit_failure_def admit_ticket_def json_loads_def py_int_def
      split: option.splits payload.splits setting_value.splits)

lemma admit_failure_none:
  assumes "admit_failure t w = None"
  shows "\<exists>w'. admit_ticket t w = Done w'"
  using assms
  by (auto simp add: admit_failure_def admit_ticket_def json_loads_def py_int_def
      split: option.splits payload.splits setting_value.splits)

lemma admit_failure_kept:
  "admit_failure t (state_of (admit_ticket x w)) = admit_failure t w"
proof -
  have s: "setting (state_of (admit_ticket x w)) = setting w"
    and d: "job_details (state_of (admit_ticket x w)) = job_details w"
    using admit_ticket_keeps [of x w] by simp_all
  show ?thesis unfolding admit_failure_def s d ..
qed

lemma admit_loop_keeps_failure:
  assumes "admit_failure t w = Some e" and "t \<in> set (pending_job_tickets w)"
  shows "admit_failure t (state_of (for_each admit_ticket xs w)) = Some e
    \<and> t \<in> set (pending_job_tickets (state_of (for_each admit_ticket xs w)))"
proof (rule for_each_invariant [where P = "\<lambda>s::world. admit_failure t s = Some e
     \<and> t \<in> set (pending_job_tickets s)"])
  fix x and s :: world
  assume p: "admit_failure t s = Some e \<and> t \<in> set (pending_job_tickets s)"
  show "admit_failure t (state_of (admit_ticket x s)) = Some e
     \<and> t \<in> set (pending_job_tickets (state_of (admit_ticket x s)))"
  proof (cases "x = t")
    case True
    then show ?thesis using p by (simp add: admit_failure_raises)
  next
    case False
    then have "t \<in> set (pending_job_tickets (state_of (admit_ticket x s)))" using p
      by (auto simp add: admit_ticket_def lrem_pending_def logged_def pending_start_job
          split: sum.splits)
    then show ?thesis using p by (simp add: admit_failure_kept)
  qed
next
  show "admit_failure t w = Some e \<and> t \<in> set (pending_job_tickets w)"
    using assms by simp
qed

lemma kill_failure_raises:
  assumes "kill_failure t w = Some e"
  shows "kill_ticket t w = Raised e w"
proof (cases "map_of (running_job w) t")
  case None
  then show ?thesis using assms by (simp add: kill_failure_def)
next
  case (Some raw)
  show ?thesis
  proof (cases raw)
    case Garbled
    then show ?thesis using Some assms by (simp add: kill_failure_def kill_ticket_def json_loads_def)
  next
    case (Doc d)
    then have "d \<noteq> []" and "e = TypeError" using Some assms
      by (auto simp add: kill_failure_def split: list.splits)
    then show ?thesis using Some Doc
      by (simp add: kill_ticket_def json_loads_def stop_job_raises)
  qed
qed

lemma kill_failure_none:
  assumes "kill_failure t w = None"
  shows "\<exists>w'. kill_ticket t w = Done w'"
proof (cases "map_of (running_job w) t")
  case None
  then show ?thesis by (simp add: kill_ticket_not_running)
next
  case (Some raw)
  then have "raw = Doc []" using assms
    by (auto simp add: kill_failure_def split: payload.splits list.splits)
  then show ?thesis using Some by (simp add: kill_ticket_def json_loads_def stop_job_no_keys)
qed

lemma kill_ticket_other:
  assumes "x \<noteq> t"
  shows "map_of (running_job (state_of (kill_ticket x w))) t = map_of (running_job w) t
    \<and> (t \<in> set (killed_job_tickets w) \<longrightarrow>
         t \<in> set (killed_job_tickets (state_of (kill_ticket x w))))"
proof (cases "kill_failure x w")
  case (Some e)
  then show ?thesis by (simp add: kill_failure_raises)
next
  case None
  show ?thesis
  proof (cases "map_of (running_job w) x")
    case n: None
    then show ?thesis using assms kill_ticket_not_running_lists [OF n] by simp
  next
    case (Some raw)
    then have "raw = Doc []" using None
      by (auto simp add: kill_failure_def split: payload.splits list.splits)
    then show ?thesis using Some assms
      by (simp add: kill_ticket_def json_loads_def stop_job_no_keys hdel_running_job_def
          lrem_killed_def logged_def)
  qed
qed

lemma kill_loop_keeps_failure:
  assumes "kill_failure t w = Some e" and "t \<in> set (killed_job_tickets w)"
    and "t \<notin> set xs"
  shows "kill_failure t (state_of (for_each kill_ticket xs w)) = Some e
    \<and> t \<in> set (killed_job_tickets (state_of (for_each kill_ticket xs w)))"
proof (rule for_each_invariant_on [where P = "\<lambda>s::world. kill_failure t s = Some e
     \<and> t \<in> set (killed_job_tickets s)"])
  fix x and s :: world
  assume "x \<in> set xs" and p: "kill_failure t s = Some e \<and> t \<in> set (killed_job_tickets s)"
  then have "x \<noteq> t" using assms(3) by auto
  from kill_ticket_other [OF this, of s] p
  show "kill_failure t (state_of (kill_ticket x s)) = Some e
     \<and> t \<in> set (killed_job_tickets (state_of (kill_ticket x s)))"
    by (simp add: kill_failure_def)
next
  show "kill_failure t w = Some e \<and> t \<in> set (killed_job_tickets w)"
    using assms by simp
qed

text \<open>
  Claim C8 says that a failure on one job does not abort the handling of the other jobs
  of the cycle. The code has no handler: with the pending list \<^verbatim>\<open>[bad, job1]\<close>, where
  the details of \<^verbatim>\<open>bad\<close> do not parse, the scheduler's cycle raises at the first
  ticket and job1, which its own pass would have admitted, is not handled; with the
  kill list \<^verbatim>\<open>[bad, job2]\<close>, where the running record of \<^verbatim>\<open>bad\<close> does not parse,
  the kill processor's cycle raises and the pending ticket of job2, which its own pass
  would have removed, stays.
\<close>

theorem malformed_record_aborts_cycle:
  "check_pending_ticket bad_sched_world = Raised JSONDecodeError bad_sched_world
   \<and> pending_job_tickets bad_sched_world = [''bad'', ''job1'']
   \<and> running_job bad_sched_world = []
   \<and> ''job1'' \<in> fst ` set (running_job (state_of (admit_ticket ''job1'' bad_sched_world)))
   \<and> check_kill_ticket bad_kill_world = Raised JSONDecodeError bad_kill_world
   \<and> killed_job_tickets bad_kill_world = [''bad'', ''job2'']
   \<and> ''job2'' \<in> set (pending_job_tickets bad_kill_world)
   \<and> ''job2'' \<notin> set (pending_job_tickets (state_of (kill_ticket ''job2'' bad_kill_world)))"
proof -
  have a: "check_pending_ticket bad_sched_world = Raised JSONDecodeError bad_sched_world"
    by (simp add: check_pending_ticket_def bad_sched_world_def world0_def admit_ticket_def json_loads_def)
  have b: "''job1'' \<in> fst ` set (running_job (state_of (admit_ticket ''job1'' bad_sched_world)))"
    by (simp add: bad_sched_world_def world0_def admit_ticket_def json_loads_def py_int_def
        lrem_pending_def logged_def running_start_job dom_update job1_def)
  have c: "check_kill_ticket bad_kill_world = Raised JSONDecodeError bad_kill_world"
    by (simp add: check_kill_ticket_def bad_kill_world_def world0_def kill_ticket_def json_loads_def)
  have d: "''job2'' \<notin> set (pending_job_tickets (state_of (kill_ticket ''job2'' bad_kill_world)))"
    by (simp add: bad_kill_world_def world0_def kill_ticket_def lrem_pending_def lrem_killed_def
        logged_def)
  show ?thesis using a b c d by (simp add: bad_sched_world_def bad_kill_world_def world0_def)
qed

text \<open>
  Claim C8 as amended. The pass of a ticket fails exactly when the stored data make it
  fail (for a pending ticket: details that are missing or do not parse, or a
  \<^verbatim>\<open>parallel_level\<close> that is missing or not a number; for a kill ticket: a running
  record that does not parse, or one with a key), and it then raises with the world as it
  was. Such a failure ends the cycle at that ticket: the cycle raises in the world that
  the passes of the earlier tickets \<open>pre\<close> left (or earlier, when one of them raised),
  so the later tickets \<open>post\<close> are not handled in this cycle, and the failing ticket and
  the data that made it fail are left in place. For the kill processor \<open>t\<close> is the
  first kill ticket of its job.
\<close>

theorem failure_ends_the_cycle:
  "(admit_failure t w = Some e \<longrightarrow> admit_ticket t w = Raised e w)
   \<and> (admit_failure t w = None \<longrightarrow> (\<exists>w'. admit_ticket t w = Done w'))
   \<and> (pending_job_tickets w = pre @ t # post \<and> admit_failure t w = Some e \<longrightarrow>
      check_pending_ticket w =
        (case for_each admit_ticket pre w of
           Done s \<Rightarrow> Raised e s | Raised e' s \<Rightarrow> Raised e' s)
      \<and> t \<in> set (pending_job_tickets (state_of (check_pending_ticket w)))
      \<and> admit_failure t (state_of (check_pending_ticket w)) = Some e)
   \<and> (kill_failure t w = Some e \<longrightarrow> kill_ticket t w = Raised e w)
   \<and> (kill_failure t w = None \<longrightarrow> (\<exists>w'. kill_ticket t w = Done w'))
   \<and> (killed_job_tickets w = pre @ t # post \<and> t \<notin> set pre \<and> kill_failure t w = Some e \<longrightarrow>
      check_kill_ticket w =
        (case for_each kill_ticket pre w of
           Done s \<Rightarrow> Raised e s | Raised e' s \<Rightarrow> Raised e' s)
      \<and> t \<in> set (killed_job_tickets (state_of (check_kill_ticket w)))
      \<and> kill_failure t (state_of (check_kill_ticket w)) = Some e)"
proof -
  have sched: "check_pending_ticket w =
        (case for_each admit_ticket pre w of
           Done s \<Rightarrow> Raised e s | Raised e' s \<Rightarrow> Raised e' s)
      \<and> t \<in> set (pending_job_tickets (state_of (check_pending_ticket w)))
      \<and> admit_failure t (state_of (check_pending_ticket w)) = Some e"
    if l: "pending_job_tickets w = pre @ t # post" and g: "admit_failure t w = Some e"
  proof -
    have m: "t \<in> set (pending_job_tickets w)" using l by simp
    note k = admit_loop_keeps_failure [OF g m, of pre]
    have r: "\<And>s. for_each admit_ticket pre w = Done s \<Longrightarrow> admit_ticket t s = Raised e s"
    proof -
      fix s assume d: "for_each admit_ticket pre w = Done s"
      from k d show "admit_ticket t s = Raised e s" by (simp add: admit_failure_raises)
    qed
    have a: "check_pending_ticket w =
        (case for_each admit_ticket pre w of
           Done s \<Rightarrow> Raised e s | Raised e' s \<Rightarrow> Raised e' s)"
      unfolding check_pending_ticket_def l
      by (rule for_each_raise_at [of admit_ticket pre w t e post, OF r])
    from k have "t \<in> set (pending_job_tickets (state_of (check_pending_ticket w)))
      \<and> admit_failure t (state_of (check_pending_ticket w)) = Some e"
      unfolding a by (cases "for_each admit_ticket pre w") simp_all
    then show ?thesis using a by simp
  qed
  have kill: "check_kill_ticket w =
        (case for_each kill_ticket pre w of
           Done s \<Rightarrow> Raised e s | Raised e' s \<Rightarrow> Raised e' s)
      \<and> t \<in> set (killed_job_tickets (state_of (check_kill_ticket w)))
      \<and> kill_failure t (state_of (check_kill_ticket w)) = Some e"
    if l: "killed_job_tickets w = pre @ t # post" and n: "t \<notin> set pre"
      and g: "kill_failure t w = Some e"
  proof -
    have m: "t \<in> set (killed_job_tickets w)" using l by simp
    note k = kill_loop_keeps_failure [OF g m n]
    have r: "\<And>s. for_each kill_ticket pre w = Done s \<Longrightarrow> kill_ticket t s = Raised e s"
    proof -
      fix s assume d: "for_each kill_ticket pre w = Done s"
      from k d show "kill_ticket t s = Raised e s" by (simp add: kill_failure_raises)
    qed
    have a: "check_kill_ticket w =
        (case for_each kill_ticket pre w of
           Done s \<Rightarrow> Raised e s | Raised e' s \<Rightarrow> Raised e' s)"
      unfolding check_kill_ticket_def l
      by (rule for_each_raise_at [of kill_ticket pre w t e post, OF r])
    from k have "t \<in> set (killed_job_tickets (state_of (check_kill_ticket w)))
      \<and> kill_failure t (state_of (check_kill_ticket w)) = Some e"
      unfolding a by (cases "for_each kill_ticket pre w") simp_all
    then show ?thesis using a by simp
  qed
  show ?thesis
    using sched kill admit_failure_raises [of t w e] admit_failure_none [of t w]
      kill_failure_raises [of t w e] kill_failure_none [of t w]
    by blast
qed

theorem failure_ends_the_cycle_witness:
  "pending_job_tickets mid_bad_sched_world = [''job1''] @ ''bad'' # [''job2'']
   \<and> admit_failure ''bad'' mid_bad_sched_world = Some JSONDecodeError
   \<and> admit_failure ''job1'' mid_bad_sched_world = None
   \<and> admit_ticket ''bad'' mid_bad_sched_world = Raised JSONDecodeError mid_bad_sched_world
   \<and> (\<exists>w'. admit_ticket ''job1'' mid_bad_sched_world = Done w')
   \<and> check_pending_ticket mid_bad_sched_world =
       Raised JSONDecodeError (lrem_pending ''job1'' (start_job job1 mid_bad_sched_world))
   \<and> ''job1'' \<in> fst ` set (running_job (state_of (check_pending_ticket mid_bad_sched_world)))
   \<and> pending_job_tickets (state_of (check_pending_ticket mid_bad_sched_world)) = [''bad'', ''job2'']
   \<and> ''job2'' \<notin> fst ` set (running_job (state_of (check_pending_ticket mid_bad_sched_world)))
   \<and> killed_job_tickets mid_bad_kill_world = [''job2''] @ ''job1'' # [''job3'']
   \<and> ''job1'' \<notin> set [''job2'']
   \<and> kill_failure ''job1'' mid_bad_kill_world = Some TypeError
   \<and> kill_failure ''job2'' mid_bad_kill_world = None
   \<and> kill_ticket ''job1'' mid_bad_kill_world = Raised TypeError mid_bad_kill_world
   \<and> (\<exists>w'. kill_ticket ''job2'' mid_bad_kill_world = Done w')
   \<and> check_kill_ticket mid_bad_kill_world =
       Raised TypeError (lrem_killed ''job2'' (lrem_pending ''job2'' mid_bad_kill_world))
   \<and> pending_job_tickets (state_of (check_kill_ticket mid_bad_kill_world)) = [''job3'']
   \<and> killed_job_tickets (state_of (check_kill_ticket mid_bad_kill_world)) = [''job1'', ''job3'']"
proof -
  let ?w = mid_bad_sched_world and ?v = mid_bad_kill_world
  have p: "pending_job_tickets ?w = [''job1''] @ ''bad'' # [''job2'']"
    and d: "job_details ?w = [(''job1'', Doc job1), (''bad'', Garbled), (''job2'', Doc job2)]"
    and s: "map_of (setting ?w) ''parallel_level'' = Some (Digits 5)"
    and r: "running_job ?w = []"
    by (simp_all add: mid_bad_sched_world_def world0_def)
  have f1: "admit_failure ''bad'' ?w = Some JSONDecodeError"
    and f2: "admit_failure ''job1'' ?w = None"
    by (simp_all add: admit_failure_def d s)
  have pre: "for_each admit_ticket [''job1''] ?w = Done (lrem_pending ''job1'' (start_job job1 ?w))"
    by (simp add: admit_ticket_def json_loads_def py_int_def d s r)
  from failure_ends_the_cycle [of "''bad''" ?w JSONDecodeError "[''job1'']" "[''job2'']"] p f1
  have a1: "admit_ticket ''bad'' ?w = Raised JSONDecodeError ?w"
    and a2': "check_pending_ticket ?w =
       (case for_each admit_ticket [''job1''] ?w of
          Done s \<Rightarrow> Raised JSONDecodeError s | Raised e' s \<Rightarrow> Raised e' s)"
    by blast+
  have a2: "check_pending_ticket ?w =
       Raised JSONDecodeError (lrem_pending ''job1'' (start_job job1 ?w))"
    by (simp only: a2' pre outcome.case)
  from failure_ends_the_cycle [of "''job1''" ?w] f2
  have a3: "\<exists>w'. admit_ticket ''job1'' ?w = Done w'" by blast
  have a4: "''job1'' \<in> fst ` set (running_job (lrem_pending ''job1'' (start_job job1 ?w)))"
    and a5: "pending_job_tickets (lrem_pending ''job1'' (start_job job1 ?w)) = [''bad'', ''job2'']"
    and a6: "''job2'' \<notin> fst ` set (running_job (lrem_pending ''job1'' (start_job job1 ?w)))"
    by (simp_all add: lrem_pending_def logged_def running_start_job pending_start_job dom_update
        r p job1_def)
  have k: "killed_job_tickets ?v = [''job2''] @ ''job1'' # [''job3'']"
    and q: "pending_job_tickets ?v = [''job2'', ''job3'']"
    and u: "running_job ?v = [(''job1'', Doc [(''shell_pids'', [100]), (''command_pids'', [101])])]"
    by (simp_all add: mid_bad_kill_world_def kill_world_def world0_def)
  have g1: "kill_failure ''job1'' ?v = Some TypeError"
    and g2: "kill_failure ''job2'' ?v = None"
    by (simp_all add: kill_failure_def u)
  have n: "''job1'' \<notin> set [''job2'']" by simp
  have kpre: "for_each kill_ticket [''job2''] ?v = Done (lrem_killed ''job2'' (lrem_pending ''job2'' ?v))"
    by (simp add: kill_ticket_def u)
  from failure_ends_the_cycle [of "''job1''" ?v TypeError "[''job2'']" "[''job3'']"] k n g1
  have b1: "kill_ticket ''job1'' ?v = Raised TypeError ?v"
    and b2': "check_kill_ticket ?v =
       (case for_each kill_ticket [''job2''] ?v of
          Done s \<Rightarrow> Raised TypeError s | Raised e' s \<Rightarrow> Raised e' s)"
    by blast+
  have b2: "check_kill_ticket ?v = Raised TypeError (lrem_killed ''job2'' (lrem_pending ''job2'' ?v))"
    by (simp only: b2' kpre outcome.case)
  from failure_ends_the_cycle [of "''job2''" ?v] g2
  have b3: "\<exists>w'. kill_ticket ''job2'' ?v = Done w'" by blast
  have b4: "pending_job_tickets (lrem_killed ''job2'' (lrem_pending ''job2'' ?v)) = [''job3'']"
    and b5: "killed_job_tickets (lrem_killed ''job2'' (lrem_pending ''job2'' ?v)) = [''job1'', ''job3'']"
    by (simp_all add: lrem_killed_def lrem_pending_def logged_def k q)
  show ?thesis
    using p f1 f2 a1 a3 a4 a5 a6 k n g1 g2 b1 b3 b4 b5 unfolding a2 b2 by simp
qed

subsection \<open>The liveness pass of the tracker\<close>

text \<open>
  A job without instances (no component, or every \<open>num\<close> at most 0) gets a record
  without keys from \<^verbatim>\<open>_start_job\<close>, and on such a record
  \<^verbatim>\<open>pid_dict["command_pids"]\<close> raises KeyError.
\<close>

lemma check_job_no_keys: "check_job (j, Doc []) w = Raised KeyError w"
  by (simp add: check_job_def json_loads_def dict_get_def)

text \<open>
  Claim C3 (a running job none of whose command PIDs exists, the job with an empty record
  included, is deleted from the running-job hash by the tracker's pass and its launchers
  are terminated). The code does not do this for the empty record that it writes itself:
  \<^verbatim>\<open>_start_job\<close> gives a job without instances the record \<^verbatim>\<open>{}\<close>, and on
  this hash the tracker's pass raises KeyError and leaves the world as it was, the record
  still in the hash.
\<close>

theorem tracker_raises_on_record_without_keys:
  "running_job (start_job empty_job world0) = [(''empty_job'', Doc [])]
   \<and> check_job_status (start_job empty_job world0) = Raised KeyError (start_job empty_job world0)"
proof -
  have i: "instances empty_job = []" by (simp add: instances_def empty_job_def)
  have n: "name empty_job = ''empty_job''" by (simp add: empty_job_def)
  have r: "running_job (start_job empty_job world0) = [(''empty_job'', Doc [])]"
    by (simp add: running_start_job launch_spawn_all spawn_all_from_empty i n dict_of_def
        world0_def)
  show ?thesis by (simp add: r check_job_status_def check_job_no_keys)
qed

text \<open>
  What holds for records that have both keys and command PIDs that fit the C type: the
  loop over the command PIDs finds whether one of them exists, a job without one is
  reaped, and the pass goes through the whole hash.
\<close>

lemma pids_exist_in_range:
  assumes "list_all (\<lambda>p. p \<le> 2147483647) ps"
  shows "pids_exist ps w b = Inr (b \<or> (\<exists>p \<in> set ps. 0 \<le> p \<and> p \<in> alive w))"
  using assms by (induction ps arbitrary: b) (auto simp add: pid_exists_def)

lemma check_job_wf:
  assumes "wf_record raw" and "tracker_pid w \<notin> set (pids_of ''shell_pids'' raw)"
  shows "check_job (j, raw) w =
     Done (if \<exists>p \<in> set (pids_of ''command_pids'' raw). 0 \<le> p \<and> p \<in> alive w
           then w else reap j raw w)"
proof -
  from assms(1) obtain d sps cps where raw: "raw = Doc d"
    and s: "map_of d ''shell_pids'' = Some sps" and c: "map_of d ''command_pids'' = Some cps"
    and ok: "list_all (\<lambda>p. p \<le> 2147483647) cps"
    by (auto simp add: wf_record_def split: payload.splits option.splits)
  have t: "tracker_pid w \<notin> set sps" using assms(2) by (simp add: pids_of_def raw s)
  have px: "pids_of ''command_pids'' raw = cps" "pids_of ''shell_pids'' raw = sps"
    by (simp_all add: pids_of_def raw s c)
  show ?thesis
  proof (cases "\<exists>p \<in> set cps. 0 \<le> p \<and> p \<in> alive w")
    case True
    then have e: "pids_exist cps w False = Inr True"
      by (simp add: pids_exist_in_range [OF ok])
    show ?thesis unfolding px if_P [OF True]
      by (simp add: check_job_def json_loads_def dict_get_def raw s c e)
  next
    case False
    then have e: "pids_exist cps w False = Inr False"
      by (simp add: pids_exist_in_range [OF ok])
    show ?thesis unfolding px if_not_P [OF False] using t
      by (simp add: check_job_def json_loads_def dict_get_def raw s c e reap_def pids_of_def
          tracker_close_by_pid_def closed_pids_def hdel_running_job_def logged_def Let_def)
  qed
qed

lemma set_delete: "set (AList.delete k al) = {x \<in> set al. fst x \<noteq> k}"
  by (auto simp add: AList.delete_eq)

lemma reap_facts:
  "alive (reap j raw w) = alive w - set (pids_of ''shell_pids'' raw)
   \<and> set (running_job (reap j raw w)) = {x \<in> set (running_job w). fst x \<noteq> j}
   \<and> trace (reap j raw w) = trace w @ [Close_by_pid (pids_of ''shell_pids'' raw) False]
   \<and> setting (reap j raw w) = setting w
   \<and> pending_job_tickets (reap j raw w) = pending_job_tickets w
   \<and> tracker_pid (reap j raw w) = tracker_pid w"
  by (simp add: reap_def close_by_pid_def closed_pids_def hdel_running_job_def logged_def
      set_delete)

lemma launchers_Cons:
  "launchers (item # items) = set (pids_of ''shell_pids'' (snd item)) \<union> launchers items"
  by (simp add: launchers_def)

lemma track_loop_done:
  assumes "\<forall>item \<in> set items. wf_record (snd item)" and "tracker_pid s \<notin> launchers items"
  shows "\<exists>s'. for_each check_job items s = Done s'
     \<and> alive s' \<subseteq> alive s \<and> alive s - launchers items \<subseteq> alive s'
     \<and> set (running_job s') \<subseteq> set (running_job s)
     \<and> set (trace s) \<subseteq> set (trace s')
     \<and> setting s' = setting s \<and> pending_job_tickets s' = pending_job_tickets s"
  using assms
proof (induction items arbitrary: s)
  case Nil
  then show ?case by simp
next
  case (Cons item items)
  obtain j raw where it: "item = (j, raw)" by (cases item)
  have wf: "wf_record raw" using Cons.prems it by simp
  have tp: "tracker_pid s \<notin> set (pids_of ''shell_pids'' raw)" "tracker_pid s \<notin> launchers items"
    using Cons.prems(2) unfolding launchers_Cons it by simp_all
  let ?s1 = "if \<exists>p \<in> set (pids_of ''command_pids'' raw). 0 \<le> p \<and> p \<in> alive s
             then s else reap j raw s"
  have step: "check_job item s = Done ?s1" unfolding it by (rule check_job_wf [OF wf tp(1)])
  have s1: "alive ?s1 \<subseteq> alive s \<and> alive s - set (pids_of ''shell_pids'' raw) \<subseteq> alive ?s1
     \<and> set (running_job ?s1) \<subseteq> set (running_job s) \<and> set (trace s) \<subseteq> set (trace ?s1)
     \<and> setting ?s1 = setting s \<and> pending_job_tickets ?s1 = pending_job_tickets s
     \<and> tracker_pid ?s1 = tracker_pid s"
    using reap_facts [of j raw s] by auto
  then have tp1: "tracker_pid ?s1 \<notin> launchers items" using tp(2) by simp
  from Cons.IH [OF _ tp1] Cons.prems(1) obtain s' where
    r: "for_each check_job items ?s1 = Done s'"
      "alive s' \<subseteq> alive ?s1" "alive ?s1 - launchers items \<subseteq> alive s'"
      "set (running_job s') \<subseteq> set (running_job ?s1)" "set (trace ?s1) \<subseteq> set (trace s')"
      "setting s' = setting ?s1" "pending_job_tickets s' = pending_job_tickets ?s1"
    by auto
  have "for_each check_job (item # items) s = Done s'"
    by (simp only: for_each.simps step outcome.case r(1))
  moreover have "alive s - launchers (item # items) \<subseteq> alive s'"
    using s1 r(3) unfolding launchers_Cons it by auto
  ultimately show ?case using s1 r by (intro exI [of _ s']) auto
qed

lemma track_loop_reaps:
  assumes "\<forall>item \<in> set items. wf_record (snd item)" and "tracker_pid s \<notin> launchers items"
    and "(j, raw) \<in> set items"
    and "\<forall>p \<in> set (pids_of ''command_pids'' raw). p \<notin> alive s"
  shows "j \<notin> fst ` set (running_job (state_of (for_each check_job items s)))
     \<and> (\<forall>p \<in> set (pids_of ''shell_pids'' raw). p \<notin> alive (state_of (for_each check_job items s)))
     \<and> Close_by_pid (pids_of ''shell_pids'' raw) False
         \<in> set (trace (state_of (for_each check_job items s)))"
  using assms
proof (induction items arbitrary: s)
  case Nil
  then show ?case by simp
next
  case (Cons item items)
  obtain j' raw' where it: "item = (j', raw')" by (cases item)
  have wf: "wf_record raw'" using Cons.prems it by simp
  have wfs: "\<forall>item \<in> set items. wf_record (snd item)" using Cons.prems by simp
  have tp: "tracker_pid s \<notin> set (pids_of ''shell_pids'' raw')" "tracker_pid s \<notin> launchers items"
    using Cons.prems(2) unfolding launchers_Cons it by simp_all
  let ?s1 = "if \<exists>p \<in> set (pids_of ''command_pids'' raw'). 0 \<le> p \<and> p \<in> alive s
             then s else reap j' raw' s"
  have step: "check_job item s = Done ?s1" unfolding it by (rule check_job_wf [OF wf tp(1)])
  have fe: "for_each check_job (item # items) s = for_each check_job items ?s1"
    by (simp only: for_each.simps step outcome.case)
  have al: "alive ?s1 \<subseteq> alive s" and tp1: "tracker_pid ?s1 \<notin> launchers items"
    using reap_facts [of j' raw' s] tp(2) by auto
  show ?case
  proof (cases "item = (j, raw)")
    case True
    then have e: "j' = j" "raw' = raw" using it by simp_all
    have s1: "?s1 = reap j raw s" using Cons.prems(4) e by auto
    from track_loop_done [OF wfs, of "reap j raw s"] tp1 s1 obtain s' where
      r: "for_each check_job items (reap j raw s) = Done s'" "alive s' \<subseteq> alive (reap j raw s)"
        "set (running_job s') \<subseteq> set (running_job (reap j raw s))"
        "set (trace (reap j raw s)) \<subseteq> set (trace s')" by auto
    have "j \<notin> fst ` set (running_job s')" using r(3) reap_facts [of j raw s] by auto
    moreover have "\<forall>p \<in> set (pids_of ''shell_pids'' raw). p \<notin> alive s'"
      using r(2) reap_facts [of j raw s] by auto
    moreover have "Close_by_pid (pids_of ''shell_pids'' raw) False \<in> set (trace s')"
      using r(4) reap_facts [of j raw s] by auto
    ultimately show ?thesis unfolding fe s1 r(1) by simp
  next
    case False
    then have m: "(j, raw) \<in> set items" using Cons.prems(3) by simp
    have d: "\<forall>p \<in> set (pids_of ''command_pids'' raw). p \<notin> alive ?s1"
      using Cons.prems(4) al by blast
    show ?thesis unfolding fe by (rule Cons.IH [OF wfs tp1 m d])
  qed
qed

lemma track_loop_keeps:
  assumes "\<forall>item \<in> set items. wf_record (snd item)" and "tracker_pid s \<notin> launchers items"
    and "(j, raw) \<in> set (running_job s)"
    and "\<forall>raw'. (j, raw') \<in> set items \<longrightarrow> raw' = raw"
    and "p \<in> set (pids_of ''command_pids'' raw)" and "0 \<le> p" and "p \<in> alive s"
    and "p \<notin> launchers items"
  shows "(j, raw) \<in> set (running_job (state_of (for_each check_job items s)))"
  using assms
proof (induction items arbitrary: s)
  case Nil
  then show ?case by simp
next
  case (Cons item items)
  obtain j' raw' where it: "item = (j', raw')" by (cases item)
  have wf: "wf_record raw'" using Cons.prems it by simp
  have wfs: "\<forall>item \<in> set items. wf_record (snd item)" using Cons.prems by simp
  have tp: "tracker_pid s \<notin> set (pids_of ''shell_pids'' raw')" "tracker_pid s \<notin> launchers items"
    using Cons.prems(2) unfolding launchers_Cons it by simp_all
  let ?s1 = "if \<exists>p \<in> set (pids_of ''command_pids'' raw'). 0 \<le> p \<and> p \<in> alive s
             then s else reap j' raw' s"
  have step: "check_job item s = Done ?s1" unfolding it by (rule check_job_wf [OF wf tp(1)])
  have fe: "for_each check_job (item # items) s = for_each check_job items ?s1"
    by (simp only: for_each.simps step outcome.case)
  have tp1: "tracker_pid ?s1 \<notin> launchers items"
    using reap_facts [of j' raw' s] tp(2) by auto
  have nl: "p \<notin> set (pids_of ''shell_pids'' raw')" "p \<notin> launchers items"
    using Cons.prems(8) unfolding launchers_Cons it by simp_all
  have a: "(j, raw) \<in> set (running_job ?s1) \<and> p \<in> alive ?s1"
  proof (cases "\<exists>p \<in> set (pids_of ''command_pids'' raw'). 0 \<le> p \<and> p \<in> alive s")
    case True
    then show ?thesis using Cons.prems by simp
  next
    case False
    have "j' \<noteq> j"
    proof
      assume "j' = j"
      then have "raw' = raw" using Cons.prems(4) it by simp
      then show False using False Cons.prems(5,6,7) by blast
    qed
    then show ?thesis using False Cons.prems(3,7) nl(1) reap_facts [of j' raw' s] by auto
  qed
  have u: "\<forall>raw'. (j, raw') \<in> set items \<longrightarrow> raw' = raw" using Cons.prems(4) by simp
  show ?case unfolding fe
    using Cons.IH [OF wfs tp1 _ u Cons.prems(5) Cons.prems(6) _ nl(2)] a by blast
qed

lemma finished_job_is_reaped:
  assumes "\<forall>item \<in> set (running_job w). wf_record (snd item)"
    and "distinct (map fst (running_job w))"
    and "tracker_pid w \<notin> launchers (running_job w)"
    and "(j, raw) \<in> set (running_job w)"
  shows "\<exists>w'. check_job_status w = Done w'
    \<and> ((\<forall>p \<in> set (pids_of ''command_pids'' raw). p \<notin> alive w) \<longrightarrow>
          j \<notin> fst ` set (running_job w')
          \<and> (\<forall>p \<in> set (pids_of ''shell_pids'' raw). p \<notin> alive w')
          \<and> Close_by_pid (pids_of ''shell_pids'' raw) False \<in> set (trace w'))
    \<and> ((\<exists>p \<in> set (pids_of ''command_pids'' raw).
           0 \<le> p \<and> p \<in> alive w \<and> p \<notin> launchers (running_job w)) \<longrightarrow>
          (j, raw) \<in> set (running_job w'))"
proof -
  from track_loop_done [OF assms(1) assms(3)] obtain w' where
    d: "for_each check_job (running_job w) w = Done w'" by auto
  have u: "\<forall>raw'. (j, raw') \<in> set (running_job w) \<longrightarrow> raw' = raw"
    using assms(2,4) by (auto dest: eq_key_imp_eq_value)
  have a: "(\<forall>p \<in> set (pids_of ''command_pids'' raw). p \<notin> alive w) \<longrightarrow>
          j \<notin> fst ` set (running_job w')
          \<and> (\<forall>p \<in> set (pids_of ''shell_pids'' raw). p \<notin> alive w')
          \<and> Close_by_pid (pids_of ''shell_pids'' raw) False \<in> set (trace w')"
    using track_loop_reaps [OF assms(1) assms(3) assms(4)] d by simp
  have b: "(\<exists>p \<in> set (pids_of ''command_pids'' raw).
           0 \<le> p \<and> p \<in> alive w \<and> p \<notin> launchers (running_job w)) \<longrightarrow>
          (j, raw) \<in> set (running_job w')"
    using track_loop_keeps [OF assms(1) assms(3) assms(4) u] d by auto
  show ?thesis unfolding check_job_status_def using d a b by blast
qed

lemma finished_job_is_reaped_example:
  "\<exists>w'. check_job_status tracker_world = Done w'
     \<and> ''empty'' \<notin> fst ` set (running_job w')
     \<and> ''done'' \<notin> fst ` set (running_job w') \<and> 200 \<notin> alive w'
     \<and> (''busy'', Doc [(''shell_pids'', [300]), (''command_pids'', [301])]) \<in> set (running_job w')"
proof -
  let ?e = "Doc [(''shell_pids'', []), (''command_pids'', [])] :: pid_dict payload"
  let ?d = "Doc [(''shell_pids'', [200]), (''command_pids'', [201])] :: pid_dict payload"
  let ?b = "Doc [(''shell_pids'', [300]), (''command_pids'', [301])] :: pid_dict payload"
  have r: "running_job tracker_world = [(''done'', ?d), (''empty'', ?e), (''busy'', ?b)]"
    by (simp add: tracker_world_def)
  have al: "alive tracker_world = {7, 8, 9, 10, 200, 300, 301}" by (simp add: tracker_world_def)
  have h1: "\<forall>item \<in> set (running_job tracker_world). wf_record (snd item)"
    by (simp add: r wf_record_def)
  have h2: "distinct (map fst (running_job tracker_world))" by (simp add: r)
  have h3: "tracker_pid tracker_world \<notin> launchers (running_job tracker_world)"
    by (simp add: r launchers_def pids_of_def tracker_world_def world0_def)
  have he: "(''empty'', ?e) \<in> set (running_job tracker_world)" by (simp add: r)
  have hd: "(''done'', ?d) \<in> set (running_job tracker_world)" by (simp add: r)
  have hb: "(''busy'', ?b) \<in> set (running_job tracker_world)" by (simp add: r)
  have l: "301 \<notin> launchers (running_job tracker_world)"
    by (simp add: r launchers_def pids_of_def)
  have pe: "pids_of ''command_pids'' ?e = []" by (simp add: pids_of_def)
  have pd: "pids_of ''command_pids'' ?d = [201]" "pids_of ''shell_pids'' ?d = [200]"
    by (simp_all add: pids_of_def)
  have pb: "pids_of ''command_pids'' ?b = [301]" by (simp add: pids_of_def)
  from finished_job_is_reaped [OF h1 h2 h3 he] obtain w1 where
    w1: "check_job_status tracker_world = Done w1" "''empty'' \<notin> fst ` set (running_job w1)"
    unfolding pe by auto
  from finished_job_is_reaped [OF h1 h2 h3 hd] w1(1) have
    w2: "''done'' \<notin> fst ` set (running_job w1)" "200 \<notin> alive w1"
    unfolding pd al by auto
  from finished_job_is_reaped [OF h1 h2 h3 hb] w1(1) l have
    w3: "(''busy'', ?b) \<in> set (running_job w1)"
    unfolding pb al by auto
  show ?thesis using w1 w2 w3 by simp
qed

subsection \<open>Idle shutdown\<close>

lemma check_job_keeps:
  "setting (state_of (check_job item w)) = setting w
   \<and> pending_job_tickets (state_of (check_job item w)) = pending_job_tickets w"
  by (cases item)
     (simp add: check_job_def tracker_close_by_pid_def close_by_pid_def hdel_running_job_def
        logged_def Let_def json_loads_def dict_get_def
        split: sum.splits payload.splits option.splits)

lemma check_job_status_keeps:
  "setting (state_of (check_job_status w)) = setting w
   \<and> pending_job_tickets (state_of (check_job_status w)) = pending_job_tickets w"
  unfolding check_job_status_def
  by (rule for_each_invariant [where P = "\<lambda>s. setting s = setting w
       \<and> pending_job_tickets s = pending_job_tickets w"])
     (simp_all add: check_job_keeps)

lemma check_job_status_idle: "running_job w = [] \<Longrightarrow> check_job_status w = Done w"
  by (simp add: check_job_status_def)

text \<open>Idle passes count, and leave the world alone as long as the count is below 5.\<close>

lemma tracker_cycle_idle:
  assumes "running_job w = []" and "pending_job_tickets w = []"
    and "py_int (map_of (setting w) ''keep_agent_alive'') = Inr 0" and "c + 1 < 5"
  shows "tracker_cycle (c, w) = Done (c + 1, w)"
  using assms by (simp add: tracker_cycle_def check_job_status_idle close_process_cli_def)

lemma tracker_run_idle:
  assumes "running_job w = []" and "pending_job_tickets w = []"
    and "py_int (map_of (setting w) ''keep_agent_alive'') = Inr 0"
  shows "c + int n < 5 \<Longrightarrow> tracker_run n (c, w) = Done (c + int n, w)"
proof (induction n arbitrary: c)
  case 0
  then show ?case by simp
next
  case (Suc n)
  have "tracker_cycle (c, w) = Done (c + 1, w)" using assms Suc.prems by (simp add: tracker_cycle_idle)
  moreover have "tracker_run n (c + 1, w) = Done (c + 1 + int n, w)" using Suc by simp
  ultimately show ?case by (simp add: add.assoc add.commute)
qed

lemma tracker_run_last:
  assumes "running_job w = []" and "pending_job_tickets w = []"
    and "py_int (map_of (setting w) ''keep_agent_alive'') = Inr 0"
  shows "c + int n = 4 \<Longrightarrow> tracker_run (Suc n) (c, w) = tracker_cycle (4, w)"
proof (induction n arbitrary: c)
  case 0
  then show ?case by (cases "tracker_cycle (4, w)") simp_all
next
  case (Suc n)
  have st: "tracker_cycle (c, w) = Done (c + 1, w)"
    using assms Suc.prems by (simp add: tracker_cycle_idle)
  have "tracker_run (Suc (Suc n)) (c, w) = tracker_run (Suc n) (c + 1, w)"
    by (simp only: tracker_run.simps(2) [of "Suc n"] st outcome.case)
  also have "\<dots> = tracker_cycle (4, w)"
    by (rule Suc.IH) (use Suc.prems in simp)
  finally show ?case .
qed

text \<open>
  A pass that, after its liveness check, finds a pending ticket or a running job sets the
  counter to 0, whatever it was.
\<close>

lemma busy_pass_resets_counter:
  assumes "check_job_status v = Done v'"
    and "py_int (map_of (setting v') ''keep_agent_alive'') = Inr 0"
    and "running_job v' \<noteq> [] \<or> pending_job_tickets v' \<noteq> []"
  shows "tracker_cycle (c, v) = Done (0, v')"
  using assms by (auto simp add: tracker_cycle_def close_process_cli_def)

lemma busy_pass_resets_counter_example:
  "tracker_cycle (4, waiting_world) = Done (0, waiting_world)"
proof -
  have "check_job_status waiting_world = Done waiting_world"
    and "py_int (map_of (setting waiting_world) ''keep_agent_alive'') = Inr 0"
    and "running_job waiting_world \<noteq> [] \<or> pending_job_tickets waiting_world \<noteq> []"
    by (simp_all add: waiting_world_def world0_def py_int_def check_job_status_def)
  then show ?thesis by (rule busy_pass_resets_counter)
qed

text \<open>
  The fifth idle pass calls \<^verbatim>\<open>close_by_pid\<close> on the stored \<^verbatim>\<open>agent_pid\<close> with
  \<^verbatim>\<open>recursive=True\<close>. The \<^verbatim>\<open>hset\<close> of \<^verbatim>\<open>agent_status\<close> follows only when the
  tracker is not among the processes that the call terminates.
\<close>

lemma fifth_idle_pass:
  assumes "running_job w = []" and "pending_job_tickets w = []"
    and "py_int (map_of (setting w) ''keep_agent_alive'') = Inr 0"
    and "py_int (map_of (setting w) ''agent_pid'') = Inr agent_pid"
  shows "tracker_run 5 (0, w) =
     (if tracker_pid w = agent_pid \<or> tracker_pid w \<in> descendants w agent_pid
      then Raised Killed (5, close_by_pid [agent_pid] True w)
      else Done (5, hset_setting ''agent_status'' (Digits 0) (close_by_pid [agent_pid] True w)))"
proof -
  have "tracker_run 5 (0, w) = tracker_cycle (4, w)"
    using tracker_run_last [OF assms(1-3), of 0 4] by (simp add: eval_nat_numeral)
  then show ?thesis using assms
    by (auto simp add: tracker_cycle_def check_job_status_idle close_process_cli_def
        tracker_close_by_pid_def closed_pids_def close_by_pid_def)
qed

text \<open>
  Claim C4 (after five idle passes the tracker terminates the master's process tree and
  sets \<^verbatim>\<open>agent_status\<close> to 0). The code does not set \<^verbatim>\<open>agent_status\<close>: in the
  world that \<^verbatim>\<open>MasterAgent\<close> sets up, \<^verbatim>\<open>agent_pid\<close> is the master and the tracker is
  one of its child processes. Four idle passes count and change nothing; the fifth calls
  \<^verbatim>\<open>close_by_pid\<close> on the master with \<^verbatim>\<open>recursive=True\<close>, which terminates the
  master's tree and the tracker in it, so the statement after the call is never run:
  \<^verbatim>\<open>agent_status\<close> has no value in the setting and nothing was written to Redis.
\<close>

theorem idle_shutdown_kills_tracker_first:
  "tracker_run 4 (0, world0) = Done (4, world0)
   \<and> map_of (setting world0) ''agent_pid'' = Some (Digits 7)
   \<and> tracker_pid world0 \<in> descendants world0 7
   \<and> tracker_run 5 (0, world0) = Raised Killed (5, close_by_pid [7] True world0)
   \<and> alive (close_by_pid [7] True world0) = {}
   \<and> map_of (setting (close_by_pid [7] True world0)) ''agent_status'' = None
   \<and> history (close_by_pid [7] True world0) = []"
proof -
  have h1: "running_job world0 = []" and h2: "pending_job_tickets world0 = []"
    and h3: "py_int (map_of (setting world0) ''keep_agent_alive'') = Inr 0"
    and h4: "py_int (map_of (setting world0) ''agent_pid'') = Inr 7"
    and h5: "tracker_pid world0 \<in> descendants world0 7"
    and h6: "map_of (setting world0) ''agent_pid'' = Some (Digits 7)"
    by (simp_all add: world0_def py_int_def)
  have a: "tracker_run 4 (0, world0) = Done (4, world0)"
    using tracker_run_idle [OF h1 h2 h3, of 0 4] by simp
  have b: "tracker_run 5 (0, world0) = Raised Killed (5, close_by_pid [7] True world0)"
    using fifth_idle_pass [OF h1 h2 h3 h4] h5 by simp
  have c: "alive (close_by_pid [7] True world0) = {}
     \<and> map_of (setting (close_by_pid [7] True world0)) ''agent_status'' = None
     \<and> history (close_by_pid [7] True world0) = []"
    by (simp add: close_by_pid_def closed_pids_def world0_def)
  show ?thesis using a b c h5 h6 by simp
qed

text \<open>
  Claim C10. In a pass of the tracker's loop with \<^verbatim>\<open>keep_agent_alive\<close> set, the
  counter comes out as it went in, however the pass ends; the pass does nothing beyond
  its liveness check. When nothing is queued or running and the flag is then cleared,
  the next pass counts on from that value: the counter is \<open>c + 1\<close>, not 1.
\<close>

theorem keep_alive_freezes_idle_counter:
  assumes "py_int (map_of (setting w) ''keep_agent_alive'') = Inr k" and "k \<noteq> 0"
  shows "fst (state_of (tracker_cycle (c, w))) = c
    \<and> (\<forall>w'. check_job_status w = Done w' \<longrightarrow> tracker_cycle (c, w) = Done (c, w'))
    \<and> (running_job w = [] \<and> pending_job_tickets w = [] \<longrightarrow>
         tracker_cycle (c, w) = Done (c, w)
         \<and> fst (state_of (tracker_cycle
              (c, w\<lparr>setting := AList.update ''keep_agent_alive'' (Digits 0) (setting w)\<rparr>))) = c + 1)"
proof -
  have s: "setting (state_of (check_job_status w)) = setting w" by (simp add: check_job_status_keeps)
  have a: "fst (state_of (tracker_cycle (c, w))) = c"
    using assms s by (cases "check_job_status w") (simp_all add: tracker_cycle_def)
  have b: "\<forall>w'. check_job_status w = Done w' \<longrightarrow> tracker_cycle (c, w) = Done (c, w')"
    using assms s by (auto simp add: tracker_cycle_def)
  have d: "running_job w = [] \<and> pending_job_tickets w = [] \<longrightarrow>
         tracker_cycle (c, w) = Done (c, w)
         \<and> fst (state_of (tracker_cycle
              (c, w\<lparr>setting := AList.update ''keep_agent_alive'' (Digits 0) (setting w)\<rparr>))) = c + 1"
    using assms
    by (auto simp add: tracker_cycle_def check_job_status_def close_process_cli_def update_conv'
        py_int_def Let_def tracker_close_by_pid_def
        split: sum.splits option.splits setting_value.splits)
  show ?thesis using a b d by blast
qed

theorem keep_alive_freezes_idle_counter_witness:
  "py_int (map_of (setting kept_world) ''keep_agent_alive'') = Inr 1 \<and> (1::int) \<noteq> 0
   \<and> running_job kept_world = [] \<and> pending_job_tickets kept_world = []
   \<and> check_job_status kept_world = Done kept_world
   \<and> tracker_cycle (3, kept_world) = Done (3, kept_world)
   \<and> fst (state_of (tracker_cycle (3, kept_world\<lparr>setting :=
        AList.update ''keep_agent_alive'' (Digits 0) (setting kept_world)\<rparr>))) = 4"
proof -
  have h1: "py_int (map_of (setting kept_world) ''keep_agent_alive'') = Inr 1"
    and h3: "running_job kept_world = []" and h4: "pending_job_tickets kept_world = []"
    by (simp_all add: kept_world_def world0_def py_int_def)
  have h2: "(1::int) \<noteq> 0" by simp
  have h5: "check_job_status kept_world = Done kept_world" by (simp add: check_job_status_def h3)
  from keep_alive_freezes_idle_counter [OF h1 h2, of 3] h3 h4 h5 h1 show ?thesis by simp
qed

end
